theory Spec2Isabelle
  imports Complex_Main
begin

section \<open>Floating-point values\<close>

text \<open>
  The simulation computes with numpy \<open>float64\<close> values. A value is modelled as a real
  number or one of the three IEEE special values. The operators \<open>+\<close>, \<open>-\<close>, \<open>*\<close>, \<open>/\<close> are
  exact on finite values: they neither round, nor overflow, nor underflow. Arithmetic that
  involves a special value follows IEEE 754: \<open>inf - inf\<close>, \<open>0 * inf\<close>, \<open>0 / 0\<close> and
  \<open>inf / inf\<close> are NaN, every comparison with NaN is false. Zero carries no sign: a
  non-zero finite value divided by zero takes the sign of the numerator. The one place
  where the range of a double decides between a result and an exception, the quotients
  that \<open>np.roots\<close> hands to \<open>eigvals\<close>, is modelled with overflow (\<open>np_divide\<close> below).
\<close>

datatype fl = Fin real | PInf | NInf | NaN

fun is_fin :: "fl \<Rightarrow> bool" where
  "is_fin (Fin x) = True"
| "is_fin PInf = False"
| "is_fin NInf = False"
| "is_fin NaN = False"

instantiation fl :: "{uminus, plus, minus, times, inverse, ord}"
begin

fun uminus_fl :: "fl \<Rightarrow> fl" where
  "uminus_fl (Fin x) = Fin (- x)"
| "uminus_fl PInf = NInf"
| "uminus_fl NInf = PInf"
| "uminus_fl NaN = NaN"

fun plus_fl :: "fl \<Rightarrow> fl \<Rightarrow> fl" where
  "plus_fl (Fin x) (Fin y) = Fin (x + y)"
| "plus_fl (Fin x) PInf = PInf"
| "plus_fl (Fin x) NInf = NInf"
| "plus_fl (Fin x) NaN = NaN"
| "plus_fl PInf (Fin y) = PInf"
| "plus_fl PInf PInf = PInf"
| "plus_fl PInf NInf = NaN"
| "plus_fl PInf NaN = NaN"
| "plus_fl NInf (Fin y) = NInf"
| "plus_fl NInf PInf = NaN"
| "plus_fl NInf NInf = NInf"
| "plus_fl NInf NaN = NaN"
| "plus_fl NaN y = NaN"

definition minus_fl :: "fl \<Rightarrow> fl \<Rightarrow> fl" where
  "minus_fl x y = x + (- y)"

fun times_fl :: "fl \<Rightarrow> fl \<Rightarrow> fl" where
  "times_fl (Fin x) (Fin y) = Fin (x * y)"
| "times_fl (Fin x) PInf = (if 0 < x then PInf else if x < 0 then NInf else NaN)"
| "times_fl (Fin x) NInf = (if 0 < x then NInf else if x < 0 then PInf else NaN)"
| "times_fl (Fin x) NaN = NaN"
| "times_fl PInf (Fin y) = (if 0 < y then PInf else if y < 0 then NInf else NaN)"
| "times_fl PInf PInf = PInf"
| "times_fl PInf NInf = NInf"
| "times_fl PInf NaN = NaN"
| "times_fl NInf (Fin y) = (if 0 < y then NInf else if y < 0 then PInf else NaN)"
| "times_fl NInf PInf = NInf"
| "times_fl NInf NInf = PInf"
| "times_fl NInf NaN = NaN"
| "times_fl NaN y = NaN"

fun divide_fl :: "fl \<Rightarrow> fl \<Rightarrow> fl" where
  "divide_fl (Fin x) (Fin y) =
     (if y \<noteq> 0 then Fin (x / y)
      else if 0 < x then PInf else if x < 0 then NInf else NaN)"
| "divide_fl (Fin x) PInf = Fin 0"
| "divide_fl (Fin x) NInf = Fin 0"
| "divide_fl (Fin x) NaN = NaN"
| "divide_fl PInf (Fin y) = (if 0 \<le> y then PInf else NInf)"
| "divide_fl PInf PInf = NaN"
| "divide_fl PInf NInf = NaN"
| "divide_fl PInf NaN = NaN"
| "divide_fl NInf (Fin y) = (if 0 \<le> y then NInf else PInf)"
| "divide_fl NInf PInf = NaN"
| "divide_fl NInf NInf = NaN"
| "divide_fl NInf NaN = NaN"
| "divide_fl NaN y = NaN"

definition inverse_fl :: "fl \<Rightarrow> fl" where
  "inverse_fl x = divide (Fin 1) x"

fun less_fl :: "fl \<Rightarrow> fl \<Rightarrow> bool" where
  "less_fl (Fin x) (Fin y) = (x < y)"
| "less_fl (Fin x) PInf = True"
| "less_fl (Fin x) NInf = False"
| "less_fl (Fin x) NaN = False"
| "less_fl PInf y = False"
| "less_fl NInf (Fin y) = True"
| "less_fl NInf PInf = True"
| "less_fl NInf NInf = False"
| "less_fl NInf NaN = False"
| "less_fl NaN y = False"

fun less_eq_fl :: "fl \<Rightarrow> fl \<Rightarrow> bool" where
  "less_eq_fl (Fin x) (Fin y) = (x \<le> y)"
| "less_eq_fl (Fin x) PInf = True"
| "less_eq_fl (Fin x) NInf = False"
| "less_eq_fl (Fin x) NaN = False"
| "less_eq_fl PInf (Fin y) = False"
| "less_eq_fl PInf PInf = True"
| "less_eq_fl PInf NInf = False"
| "less_eq_fl PInf NaN = False"
| "less_eq_fl NInf (Fin y) = True"
| "less_eq_fl NInf PInf = True"
| "less_eq_fl NInf NInf = True"
| "less_eq_fl NInf NaN = False"
| "less_eq_fl NaN y = False"

instance ..

end

text \<open>\<open>np.sqrt\<close>: NaN (with a warning, not an exception) on a negative argument.\<close>

fun np_sqrt :: "fl \<Rightarrow> fl" where
  "np_sqrt (Fin x) = (if x < 0 then NaN else Fin (sqrt x))"
| "np_sqrt PInf = PInf"
| "np_sqrt NInf = NaN"
| "np_sqrt NaN = NaN"

section \<open>Vectors\<close>

text \<open>
  Positions and velocities are numpy arrays of length two (the constructor of a ball
  checks the length); they are modelled as pairs.
\<close>

type_synonym vec = "fl \<times> fl"

fun vadd :: "vec \<Rightarrow> vec \<Rightarrow> vec" where
  "vadd (x0, x1) (y0, y1) = (x0 + y0, x1 + y1)"

fun vsub :: "vec \<Rightarrow> vec \<Rightarrow> vec" where
  "vsub (x0, x1) (y0, y1) = (x0 - y0, x1 - y1)"

text \<open>\<open>v * s\<close> for an array \<open>v\<close> and a scalar \<open>s\<close>, and \<open>s * v\<close>.\<close>

fun vscale :: "vec \<Rightarrow> fl \<Rightarrow> vec" where
  "vscale (x0, x1) s = (x0 * s, x1 * s)"

fun scalev :: "fl \<Rightarrow> vec \<Rightarrow> vec" where
  "scalev s (x0, x1) = (s * x0, s * x1)"

fun np_dot :: "vec \<Rightarrow> vec \<Rightarrow> fl" where
  "np_dot (x0, x1) (y0, y1) = x0 * y0 + x1 * y1"

definition la_norm :: "vec \<Rightarrow> fl" where
  "la_norm v = np_sqrt (np_dot v v)"

section \<open>Errors\<close>

text \<open>
  The exceptions the engine can raise. \<open>FormatError\<close> is the \<open>Exception\<close> raised by the
  constructor of a ball; \<open>LinAlgError\<close> is raised by \<open>numpy.linalg.eigvals\<close> (called by
  \<open>np.roots\<close>) on a matrix with a non-finite entry; \<open>ValueError\<close> is raised by
  \<open>np.argmin\<close> on an empty array and by unpacking; \<open>ZeroDivisionError\<close> by dividing a
  Python float by the integer zero. \<open>StalledSimulationError\<close> is the error the
  specification names for a stalled run; no statement of the source raises it.
\<close>

datatype error =
    FormatError
  | LinAlgError
  | ValueError
  | IndexError
  | ZeroDivisionError
  | StalledSimulationError

section \<open>Ball\<close>

record ball =
  position :: vec
  velocity :: vec
  mass :: fl
  radius :: fl
  distance_travelled :: fl
  ball_collisions :: int
  wall_collisions :: int

text \<open>\<open>Ball.__init__\<close>: the only check is on the lengths of position and velocity.\<close>

definition Ball_init :: "fl list \<Rightarrow> fl list \<Rightarrow> fl \<Rightarrow> fl \<Rightarrow> error + ball" where
  "Ball_init pos vel m r =
     (if length pos \<noteq> 2 \<or> length vel \<noteq> 2 then Inl FormatError
      else Inr \<lparr>position = (pos ! 0, pos ! 1), velocity = (vel ! 0, vel ! 1),
                mass = m, radius = r, distance_travelled = Fin 0,
                ball_collisions = 0, wall_collisions = 0\<rparr>)"

definition kinetic_energy :: "ball \<Rightarrow> fl" where
  "kinetic_energy b = (let v = velocity b in Fin (1 / 2) * mass b * np_dot v v)"

definition speed_squared :: "ball \<Rightarrow> fl" where
  "speed_squared b = (let v = velocity b in np_dot v v)"

definition momentum :: "ball \<Rightarrow> vec" where
  "momentum b = vscale (velocity b) (mass b)"

definition update_position :: "fl \<Rightarrow> ball \<Rightarrow> ball" where
  "update_position dt b =
     (let dp = vscale (velocity b) dt
      in b\<lparr>position := vadd (position b) dp,
            distance_travelled := distance_travelled b + la_norm dp\<rparr>)"

definition update_velocity :: "vec \<Rightarrow> ball \<Rightarrow> ball" where
  "update_velocity v b = b\<lparr>velocity := v\<rparr>"

subsection \<open>Root finding\<close>

text \<open>
  \<open>np.roots([a, b, c])\<close>. numpy strips the leading and trailing zero coefficients
  (every trailing zero gives one root \<open>0\<close>), divides the remaining coefficients by the
  leading one to build the companion matrix and returns its eigenvalues;
  \<open>eigvals\<close> raises \<open>LinAlgError\<close> when the matrix has a non-finite entry. A NaN or
  infinite coefficient counts as non-zero.
\<close>

text \<open>
  The quotients \<open>-p[1:] / p[0]\<close> of the companion matrix. A quotient of two doubles
  overflows to an infinity when its magnitude reaches \<open>2^1024 - 2^970\<close>, the midpoint
  between the largest double and \<open>2^1024\<close>; the matrix then has a non-finite entry and
  \<open>eigvals\<close> raises. A quotient in range is taken exactly.
\<close>

definition float_overflow :: real where
  "float_overflow = (2 - 1 / 2 ^ 53) * 2 ^ 1023"

definition np_divide :: "fl \<Rightarrow> fl \<Rightarrow> fl" where
  "np_divide x y =
     (case x / y of
        Fin q \<Rightarrow>
          (if float_overflow \<le> \<bar>q\<bar> then (if 0 < q then PInf else NInf) else Fin q)
      | PInf \<Rightarrow> PInf
      | NInf \<Rightarrow> NInf
      | NaN \<Rightarrow> NaN)"

definition nonzero :: "fl \<Rightarrow> bool" where
  "nonzero x = (x \<noteq> Fin 0)"

text \<open>
  The eigenvalues of the companion matrix \<open>[[q1, q0], [1, 0]]\<close>: the roots of
  \<open>t\<^sup>2 - q1 t - q0\<close>, taken exactly. LAPACK computes them in double precision: where the
  discriminant \<open>q1^2 + 4 q0\<close> is zero or negligible against rounding, the pair it returns
  may be real or complex (for \<open>np.roots([1, -6, 9])\<close> it is \<open>3 + 3.7e-8j\<close> and its
  conjugate), and the model does not follow it there. The results below that are about
  the roots found are stated for distinct real roots or for no real root.
\<close>

definition eigvals2 :: "real \<Rightarrow> real \<Rightarrow> complex list" where
  "eigvals2 q1 q0 =
     (let d = q1 * q1 + 4 * q0
      in if 0 \<le> d
         then [Complex ((q1 + sqrt d) / 2) 0, Complex ((q1 - sqrt d) / 2) 0]
         else [Complex (q1 / 2) (sqrt (- d) / 2), Complex (q1 / 2) (- (sqrt (- d) / 2))])"

definition np_roots :: "fl \<Rightarrow> fl \<Rightarrow> fl \<Rightarrow> error + complex list" where
  "np_roots a b c =
     (if nonzero a then
        (if nonzero c then
           (case np_divide (- b) a of
              Fin q1 \<Rightarrow>
                (case np_divide (- c) a of
                   Fin q0 \<Rightarrow> Inr (eigvals2 q1 q0)
                 | _ \<Rightarrow> Inl LinAlgError)
            | _ \<Rightarrow> Inl LinAlgError)
         else if nonzero b then
           (case np_divide (- b) a of
              Fin q \<Rightarrow> Inr [Complex q 0, Complex 0 0]
            | _ \<Rightarrow> Inl LinAlgError)
         else Inr [Complex 0 0, Complex 0 0])
      else if nonzero b then
        (if nonzero c then
           (case np_divide (- c) b of
              Fin q \<Rightarrow> Inr [Complex q 0]
            | _ \<Rightarrow> Inl LinAlgError)
         else Inr [Complex 0 0])
      else Inr [])"

text \<open>The positive-time floor \<open>1e-12\<close>.\<close>

definition time_floor :: real where
  "time_floor = 1 / 10 ^ 12"

text \<open>\<open>np.amin\<close> of a non-empty list.\<close>

fun np_amin :: "real list \<Rightarrow> real" where
  "np_amin [] = 0"
| "np_amin (x # xs) = fold min xs x"

definition predict_collision_time :: "fl \<Rightarrow> fl \<Rightarrow> fl \<Rightarrow> error + fl" where
  "predict_collision_time a b c =
     (case np_roots a b c of
        Inl e \<Rightarrow> Inl e
      | Inr roots \<Rightarrow>
          (let time_roots = map Re (filter (\<lambda>t. Im t = 0 \<and> time_floor < Re t) roots)
           in Inr (if length time_roots = 0 then PInf else Fin (np_amin time_roots))))"

definition next_wall_collision :: "ball \<Rightarrow> fl \<Rightarrow> error + fl" where
  "next_wall_collision bl container_radius =
     (let x = position bl;
          v = velocity bl;
          a = np_dot v v;
          b = Fin 2 * np_dot x v;
          c = np_dot x x - (container_radius - radius bl) * (container_radius - radius bl)
      in predict_collision_time a b c)"

definition next_ball_collision :: "ball \<Rightarrow> ball \<Rightarrow> error + fl" where
  "next_ball_collision bl other =
     (let r1 = radius bl; r2 = radius other;
          x1 = position bl; x2 = position other;
          v1 = velocity bl; v2 = velocity other;
          dx = vsub x1 x2;
          dv = vsub v1 v2;
          a = np_dot dv dv;
          b = Fin 2 * np_dot dx dv;
          c = np_dot dx dx - (r1 + r2) * (r1 + r2)
      in predict_collision_time a b c)"

subsection \<open>Collision resolution\<close>

definition velocity_after_wall_collision :: "ball \<Rightarrow> vec" where
  "velocity_after_wall_collision bl =
     (let r = position bl;
          u = velocity bl;
          R = vscale r (Fin 2 * np_dot u r / np_dot r r)
      in vsub u R)"

definition velocity_after_ball_collision :: "ball \<Rightarrow> ball \<Rightarrow> vec \<times> vec" where
  "velocity_after_ball_collision bl b =
     (let m1 = mass bl; m2 = mass b;
          x1 = position bl; x2 = position b;
          u1 = velocity bl; u2 = velocity b;
          dx = vsub x1 x2;
          dv = vsub u1 u2;
          s = (Fin 2 * np_dot dx dv) / ((m1 + m2) * np_dot dx dx);
          v1 = vsub u1 (vscale (vscale dx m2) s);
          v2 = vadd u2 (vscale (vscale dx m1) s)
      in (v1, v2))"

section \<open>App: the collision engine\<close>

text \<open>
  The state of the engine. The fields \<open>kinetic_energy\<close>, \<open>ball_collisions\<close> and
  \<open>wall_collisions\<close> of the source are called \<open>total_kinetic_energy\<close>,
  \<open>total_ball_collisions\<close> and \<open>total_wall_collisions\<close> here, since a ball has members of
  the same names. The configuration (file name, animation and output flags) and the
  rendering patches are not part of the model; \<open>num_frames\<close> is the argument of
  \<open>render\<close>. The reporting calls (\<open>self.output.print_line()\<close>, \<open>print_state()\<close>) and the
  class attribute \<open>Ball.rms_speed\<close>, which only scales the drawn arrows, are left out.
\<close>

record app =
  container_radius :: fl
  time :: fl
  total_kinetic_energy :: fl
  rms_speed :: fl
  pressure :: fl
  delta_p :: fl
  total_ball_collisions :: int
  total_wall_collisions :: int
  balls :: "ball list"
  b2b_table :: "fl list list"
  b2w_table :: "fl list"
  container_circumference :: fl

text \<open>\<open>self.num_balls\<close> is set once to \<open>len(self.balls())\<close>; the list never changes its
  length.\<close>

definition num_balls :: "app \<Rightarrow> nat" where
  "num_balls st = length (balls st)"

text \<open>\<open>np.full((n, n), np.inf)\<close> and \<open>np.full(n, np.inf)\<close>.\<close>

definition np_full2 :: "nat \<Rightarrow> fl list list" where
  "np_full2 n = replicate n (replicate n PInf)"

definition np_full1 :: "nat \<Rightarrow> fl list" where
  "np_full1 n = replicate n PInf"

text \<open>The state built by the first part of \<open>App.__init__\<close>, before \<open>init_table\<close>.\<close>

definition new_app :: "fl \<Rightarrow> ball list \<Rightarrow> app" where
  "new_app R bs =
     \<lparr>container_radius = R, time = Fin 0, total_kinetic_energy = Fin 0, rms_speed = Fin 0,
      pressure = Fin 0, delta_p = Fin 0, total_ball_collisions = 0,
      total_wall_collisions = 0, balls = bs,
      b2b_table = np_full2 (length bs), b2w_table = np_full1 (length bs),
      container_circumference = Fin 2 * Fin pi * R\<rparr>"

text \<open>\<open>table[i][j] = v\<close>.\<close>

definition set_b2b :: "nat \<Rightarrow> nat \<Rightarrow> fl \<Rightarrow> fl list list \<Rightarrow> fl list list" where
  "set_b2b i j v T = T[i := (T ! i)[j := v]]"

subsection \<open>\<open>init_table\<close>\<close>

text \<open>The inner loop \<open>for j in range(i + 1, l)\<close> and the outer loop \<open>for i in range(l)\<close>.
  An exception raised by a predictor ends the loops.\<close>

fun init_table_row :: "ball list \<Rightarrow> nat \<Rightarrow> nat list \<Rightarrow> fl list list \<Rightarrow> error + fl list list"
  where
  "init_table_row bs i [] T = Inr T"
| "init_table_row bs i (j # js) T =
     (case next_ball_collision (bs ! i) (bs ! j) of
        Inl e \<Rightarrow> Inl e
      | Inr collision_time \<Rightarrow> init_table_row bs i js (set_b2b i j collision_time T))"

fun init_table_loop :: "nat list \<Rightarrow> app \<Rightarrow> error + app" where
  "init_table_loop [] st = Inr st"
| "init_table_loop (i # is) st =
     (case next_wall_collision (balls st ! i) (container_radius st) of
        Inl e \<Rightarrow> Inl e
      | Inr collision_time \<Rightarrow>
          (case init_table_row (balls st) i [i + 1 ..< num_balls st] (b2b_table st) of
             Inl e \<Rightarrow> Inl e
           | Inr T \<Rightarrow>
               init_table_loop is
                 (st\<lparr>b2w_table := (b2w_table st)[i := collision_time], b2b_table := T\<rparr>)))"

definition init_table :: "app \<Rightarrow> error + app" where
  "init_table st = init_table_loop [0 ..< num_balls st] st"

subsection \<open>\<open>update_table\<close>\<close>

definition update_table :: "fl \<Rightarrow> app \<Rightarrow> app" where
  "update_table dt st =
     (let l = length (b2b_table st)
      in st\<lparr>b2w_table := map (\<lambda>x. x - dt) (b2w_table st),
            b2b_table :=
              fold (\<lambda>i T. fold (\<lambda>j T. set_b2b i j (T ! i ! j - dt) T) [i + 1 ..< l] T)
                [0 ..< l] (b2b_table st)\<rparr>)"

subsection \<open>\<open>recalculate_collision\<close>\<close>

fun recalculate_row :: "ball list \<Rightarrow> nat \<Rightarrow> nat list \<Rightarrow> fl list list \<Rightarrow> error + fl list list"
  where
  "recalculate_row bs i [] T = Inr T"
| "recalculate_row bs i (j # js) T =
     (if i \<noteq> j then
        (let x = min i j; y = max i j
         in case next_ball_collision (bs ! i) (bs ! j) of
              Inl e \<Rightarrow> Inl e
            | Inr b2b_time \<Rightarrow> recalculate_row bs i js (set_b2b x y b2b_time T))
      else recalculate_row bs i js T)"

text \<open>Indexing \<open>balls[i]\<close> beyond the list raises \<open>IndexError\<close>.\<close>

fun recalculate_collision :: "nat list \<Rightarrow> app \<Rightarrow> error + app" where
  "recalculate_collision [] st = Inr st"
| "recalculate_collision (i # ball_ids) st =
     (if num_balls st \<le> i then Inl IndexError
      else
        (case next_wall_collision (balls st ! i) (container_radius st) of
           Inl e \<Rightarrow> Inl e
         | Inr b2w_time \<Rightarrow>
             (case recalculate_row (balls st) i [0 ..< num_balls st] (b2b_table st) of
                Inl e \<Rightarrow> Inl e
              | Inr T \<Rightarrow>
                  recalculate_collision ball_ids
                    (st\<lparr>b2w_table := (b2w_table st)[i := b2w_time], b2b_table := T\<rparr>))))"

subsection \<open>\<open>next_collision\<close>\<close>

text \<open>
  \<open>np.argmin\<close>: the index of the first minimum; a NaN counts as the minimum, and the
  first NaN ends the scan (numpy's loop replaces the best value by \<open>x\<close> when
  \<open>not (x >= best)\<close>). An empty array raises \<open>ValueError\<close>.
\<close>

fun argmin_scan :: "nat \<Rightarrow> fl \<Rightarrow> nat \<Rightarrow> fl list \<Rightarrow> nat" where
  "argmin_scan bi bv k [] = bi"
| "argmin_scan bi bv k (x # xs) =
     (if bv = NaN then bi
      else if \<not> bv \<le> x then argmin_scan k x (Suc k) xs
      else argmin_scan bi bv (Suc k) xs)"

definition np_argmin :: "fl list \<Rightarrow> error + nat" where
  "np_argmin xs = (case xs of [] \<Rightarrow> Inl ValueError | x # ys \<Rightarrow> Inr (argmin_scan 0 x 1 ys))"

text \<open>A collision: the list of the colliding balls' indices (one for a wall collision,
  two for a ball collision) and the time.\<close>

type_synonym collision = "nat list \<times> fl"

text \<open>The argmin of the pairwise table is taken over the flattened array and unravelled
  with the shape \<open>(l, l)\<close>.\<close>

definition next_collision :: "app \<Rightarrow> error + collision" where
  "next_collision st =
     (case np_argmin (b2w_table st) of
        Inl e \<Rightarrow> Inl e
      | Inr b2w \<Rightarrow>
          (let b2w_time = b2w_table st ! b2w
           in case np_argmin (concat (b2b_table st)) of
                Inl e \<Rightarrow> Inl e
              | Inr k \<Rightarrow>
                  (let l = length (b2b_table st);
                       b2b = (k div l, k mod l);
                       b2b_time = b2b_table st ! fst b2b ! snd b2b
                   in if b2w_time < b2b_time then Inr ([b2w], b2w_time)
                      else Inr ([fst b2b, snd b2b], b2b_time))))"

subsection \<open>\<open>update_state\<close>\<close>

text \<open>
  The clock is advanced first; the pressure is then computed from the advanced clock.
  With no ball, \<open>rms_speed_sum\<close> is the Python float \<open>0.0\<close> and the division by
  \<open>self.num_balls = 0\<close> raises \<open>ZeroDivisionError\<close>.
\<close>

definition update_state :: "fl \<Rightarrow> app \<Rightarrow> error + app" where
  "update_state dt st =
     (let kinetic_energy_sum = fold (\<lambda>b acc. acc + kinetic_energy b) (balls st) (Fin 0);
          rms_speed_sum = fold (\<lambda>b acc. acc + speed_squared b) (balls st) (Fin 0);
          time' = time st + dt
      in if num_balls st = 0 then Inl ZeroDivisionError
         else Inr (st\<lparr>time := time',
                      total_kinetic_energy := kinetic_energy_sum,
                      rms_speed := np_sqrt (rms_speed_sum / Fin (real (num_balls st))),
                      pressure :=
                        (if Fin 0 < time'
                         then delta_p st / (container_circumference st * time')
                         else Fin 0)\<rparr>))"

subsection \<open>\<open>collide\<close>\<close>

definition wall_collision :: "nat \<Rightarrow> app \<Rightarrow> error + app" where
  "wall_collision b2w st =
     (if num_balls st \<le> b2w then Inl IndexError
      else
        (let bl = balls st ! b2w;
             u = velocity bl;
             v = velocity_after_wall_collision bl;
             dp = scalev (mass bl) (vsub v u);
             st1 = st\<lparr>balls := (balls st)[b2w := update_velocity v bl],
                      delta_p := delta_p st + la_norm dp\<rparr>
         in case recalculate_collision [b2w] st1 of
              Inl e \<Rightarrow> Inl e
            | Inr st2 \<Rightarrow>
                Inr (st2\<lparr>balls := (balls st2)[b2w :=
                            (balls st2 ! b2w)\<lparr>wall_collisions :=
                               wall_collisions (balls st2 ! b2w) + 1\<rparr>],
                         total_wall_collisions := total_wall_collisions st2 + 1\<rparr>)))"

text \<open>The two balls are objects: when \<open>b_i = b_j\<close> the second update acts on the ball the
  first one has already changed.\<close>

definition ball_collision :: "nat \<Rightarrow> nat \<Rightarrow> app \<Rightarrow> error + app" where
  "ball_collision b_i b_j st =
     (if num_balls st \<le> b_i \<or> num_balls st \<le> b_j then Inl IndexError
      else
        (let (v1, v2) = velocity_after_ball_collision (balls st ! b_i) (balls st ! b_j);
             bs1 = (balls st)[b_i := update_velocity v1 (balls st ! b_i)];
             bs2 = bs1[b_j := update_velocity v2 (bs1 ! b_j)]
         in case recalculate_collision [b_i, b_j] (st\<lparr>balls := bs2\<rparr>) of
              Inl e \<Rightarrow> Inl e
            | Inr st2 \<Rightarrow>
                (let bs3 = (balls st2)[b_i :=
                             (balls st2 ! b_i)\<lparr>ball_collisions :=
                                ball_collisions (balls st2 ! b_i) + 1\<rparr>];
                     bs4 = bs3[b_j :=
                             (bs3 ! b_j)\<lparr>ball_collisions := ball_collisions (bs3 ! b_j) + 1\<rparr>]
                 in Inr (st2\<lparr>balls := bs4,
                             total_ball_collisions := total_ball_collisions st2 + 1\<rparr>))))"

text \<open>\<open>collide\<close>: no test on \<open>dt\<close>. A list of indices that has neither one nor two
  elements fails in the unpacking \<open>b_i, b_j = collision[0]\<close>.\<close>

definition collide :: "collision \<Rightarrow> app \<Rightarrow> error + app" where
  "collide collision st =
     (let dt = snd collision;
          st1 = update_table dt st;
          st2 = st1\<lparr>balls := map (update_position dt) (balls st1)\<rparr>
      in case (case fst collision of
                 [b2w] \<Rightarrow> wall_collision b2w st2
               | [b_i, b_j] \<Rightarrow> ball_collision b_i b_j st2
               | _ \<Rightarrow> Inl ValueError) of
           Inl e \<Rightarrow> Inl e
         | Inr st3 \<Rightarrow> update_state dt st3)"

subsection \<open>\<open>render\<close> and the constructor\<close>

text \<open>The loop \<open>for frame in range(num_frames)\<close>, without the drawing.\<close>

fun render :: "nat \<Rightarrow> app \<Rightarrow> error + app" where
  "render 0 st = Inr st"
| "render (Suc num_frames) st =
     (case next_collision st of
        Inl e \<Rightarrow> Inl e
      | Inr c \<Rightarrow>
          (case collide c st of
             Inl e \<Rightarrow> Inl e
           | Inr st' \<Rightarrow> render num_frames st'))"

definition App_init :: "fl \<Rightarrow> nat \<Rightarrow> ball list \<Rightarrow> error + app" where
  "App_init R num_frames bs =
     (case init_table (new_app R bs) of
        Inl e \<Rightarrow> Inl e
      | Inr st1 \<Rightarrow>
          (case update_state (Fin 0) st1 of
             Inl e \<Rightarrow> Inl e
           | Inr st2 \<Rightarrow> render num_frames st2))"

section \<open>Notions used in the statements\<close>

text \<open>The real roots of \<open>a t\<^sup>2 + b t + c\<close>, to state what the root finder returns.\<close>

definition real_roots :: "real \<Rightarrow> real \<Rightarrow> real \<Rightarrow> real set" where
  "real_roots a b c = {t. a * t * t + b * t + c = 0}"

text \<open>
  The quotient \<open>x / y\<close> of two doubles overflows; and a quotient that \<open>np.roots\<close> forms
  from the coefficients \<open>a\<close>, \<open>b\<close>, \<open>c\<close> overflows: \<open>b / a\<close> or \<open>c / a\<close>, or \<open>c / b\<close> when the
  leading coefficient is zero. (A quotient by zero, which \<open>np.roots\<close> never forms, is zero
  in HOL and does not count.)
\<close>

definition quotient_overflows :: "real \<Rightarrow> real \<Rightarrow> bool" where
  "quotient_overflows x y = (float_overflow \<le> \<bar>x / y\<bar>)"

definition coefficients_overflow :: "real \<Rightarrow> real \<Rightarrow> real \<Rightarrow> bool" where
  "coefficients_overflow a b c =
     (quotient_overflows b a \<or> quotient_overflows c a \<or> (a = 0 \<and> quotient_overflows c b))"

text \<open>A vector of two finite components: the setting of exact arithmetic.\<close>

definition finite_vec :: "vec \<Rightarrow> bool" where
  "finite_vec v = (is_fin (fst v) \<and> is_fin (snd v))"

text \<open>Two balls on the x-axis moving towards each other, used as concrete inputs.\<close>

definition example_ball_1 :: ball where
  "example_ball_1 =
     \<lparr>position = (Fin 0, Fin 0), velocity = (Fin 1, Fin 0), mass = Fin 1, radius = Fin 1,
      distance_travelled = Fin 0, ball_collisions = 0, wall_collisions = 0\<rparr>"

definition example_ball_2 :: ball where
  "example_ball_2 =
     \<lparr>position = (Fin 2, Fin 0), velocity = (Fin (- 1), Fin 0), mass = Fin 3, radius = Fin 1,
      distance_travelled = Fin 0, ball_collisions = 0, wall_collisions = 0\<rparr>"

text \<open>Two balls at rest, apart from each other and from the wall of a container of
  radius 10.\<close>

definition still_ball_1 :: ball where
  "still_ball_1 =
     \<lparr>position = (Fin 0, Fin 0), velocity = (Fin 0, Fin 0), mass = Fin 1, radius = Fin 1,
      distance_travelled = Fin 0, ball_collisions = 0, wall_collisions = 0\<rparr>"

definition still_ball_2 :: ball where
  "still_ball_2 =
     \<lparr>position = (Fin 5, Fin 0), velocity = (Fin 0, Fin 0), mass = Fin 1, radius = Fin 1,
      distance_travelled = Fin 0, ball_collisions = 0, wall_collisions = 0\<rparr>"

text \<open>An engine state with one ball, the clock at zero and an accumulated wall impulse
  of 2, in a container of radius 10.\<close>

definition example_app_1 :: app where
  "example_app_1 = (new_app (Fin 10) [example_ball_1])\<lparr>delta_p := Fin 2\<rparr>"

text \<open>A table of \<open>n\<close> rows of length \<open>n\<close>, and the convention of the pairwise table:
  every cell on or below the diagonal holds \<open>+inf\<close>.\<close>

definition square_table :: "nat \<Rightarrow> fl list list \<Rightarrow> bool" where
  "square_table n T = (length T = n \<and> (\<forall>row \<in> set T. length row = n))"

definition upper_triangular :: "fl list list \<Rightarrow> bool" where
  "upper_triangular T =
     (\<forall>i < length T. \<forall>j < length (T ! i). j \<le> i \<longrightarrow> T ! i ! j = PInf)"

definition b2b_invariant :: "nat \<Rightarrow> fl list list \<Rightarrow> bool" where
  "b2b_invariant n T = (square_table n T \<and> upper_triangular T)"

text \<open>A state of two balls at rest with freshly built tables.\<close>

definition still_app :: app where
  "still_app = new_app (Fin 10) [still_ball_1, still_ball_2]"

text \<open>Two equal balls approaching each other head-on along the x-axis, in a container of
  radius 10; the state after \<open>init_table\<close>; and the state after the first collision.\<close>

definition head_on_ball_1 :: ball where
  "head_on_ball_1 =
     \<lparr>position = (Fin (- 3), Fin 0), velocity = (Fin 1, Fin 0), mass = Fin 1, radius = Fin 1,
      distance_travelled = Fin 0, ball_collisions = 0, wall_collisions = 0\<rparr>"

definition head_on_ball_2 :: ball where
  "head_on_ball_2 =
     \<lparr>position = (Fin 3, Fin 0), velocity = (Fin (- 1), Fin 0), mass = Fin 1, radius = Fin 1,
      distance_travelled = Fin 0, ball_collisions = 0, wall_collisions = 0\<rparr>"

definition head_on_app :: app where
  "head_on_app = new_app (Fin 10) [head_on_ball_1, head_on_ball_2]"

definition head_on_app_1 :: app where
  "head_on_app_1 =
     head_on_app\<lparr>b2w_table := [Fin 12, Fin 12], b2b_table := [[PInf, Fin 2], [PInf, PInf]]\<rparr>"

text \<open>The head-on state after \<open>update_state(0.0)\<close>, as the constructor leaves it for
  \<open>render\<close>.\<close>

definition head_on_app_0 :: app where
  "head_on_app_0 = head_on_app_1\<lparr>total_kinetic_energy := Fin 1, rms_speed := Fin 1\<rparr>"

text \<open>A third ball that reaches the wall at the very time the two head-on balls meet, and
  the state of the three balls after \<open>init_table\<close>.\<close>

definition tie_ball_3 :: ball where
  "tie_ball_3 =
     \<lparr>position = (Fin 0, Fin 7), velocity = (Fin 0, Fin 1), mass = Fin 1, radius = Fin 1,
      distance_travelled = Fin 0, ball_collisions = 0, wall_collisions = 0\<rparr>"

definition tie_app :: app where
  "tie_app = new_app (Fin 10) [head_on_ball_1, head_on_ball_2, tie_ball_3]"

definition tie_app_1 :: app where
  "tie_app_1 =
     tie_app\<lparr>b2w_table := [Fin 12, Fin 12, Fin 2],
             b2b_table := [[PInf, Fin 2, PInf], [PInf, PInf, PInf], [PInf, PInf, PInf]]\<rparr>"

text \<open>Containment of a ball in the container of radius \<open>R\<close>, and containment along the
  current straight trajectory for every time from \<open>0\<close> to \<open>h\<close>.\<close>

definition contained :: "fl \<Rightarrow> ball \<Rightarrow> bool" where
  "contained R b = (la_norm (position b) + radius b \<le> R)"

definition stays_inside :: "fl \<Rightarrow> ball \<Rightarrow> real \<Rightarrow> bool" where
  "stays_inside R b h =
     (\<forall>t. 0 \<le> t \<and> t \<le> h \<longrightarrow> contained R (update_position (Fin t) b))"

text \<open>The head-on state after its first collision.\<close>

definition head_on_app_2 :: app where
  "head_on_app_2 =
     head_on_app_1\<lparr>time := Fin 2, total_kinetic_energy := Fin 1, rms_speed := Fin 1,
       total_ball_collisions := 1,
       balls :=
         [\<lparr>position = (Fin (- 1), Fin 0), velocity = (Fin (- 1), Fin 0), mass = Fin 1,
           radius = Fin 1, distance_travelled = Fin 2, ball_collisions = 1,
           wall_collisions = 0\<rparr>,
          \<lparr>position = (Fin 1, Fin 0), velocity = (Fin 1, Fin 0), mass = Fin 1,
           radius = Fin 1, distance_travelled = Fin 2, ball_collisions = 1,
           wall_collisions = 0\<rparr>],
       b2w_table := [Fin 8, Fin 8],
       b2b_table := [[PInf, PInf], [PInf, PInf]]\<rparr>"

text \<open>A ball that touches the wall and moves outwards, a second ball that starts at the
  centre, and the state of the two after \<open>init_table\<close>.\<close>

definition escape_ball_1 :: ball where
  "escape_ball_1 =
     \<lparr>position = (Fin 9, Fin 0), velocity = (Fin 1, Fin 0), mass = Fin 1, radius = Fin 1,
      distance_travelled = Fin 0, ball_collisions = 0, wall_collisions = 0\<rparr>"

definition escape_ball_2 :: ball where
  "escape_ball_2 =
     \<lparr>position = (Fin 0, Fin 0), velocity = (Fin 0, Fin 1), mass = Fin 1, radius = Fin 1,
      distance_travelled = Fin 0, ball_collisions = 0, wall_collisions = 0\<rparr>"

definition escape_app :: app where
  "escape_app = new_app (Fin 10) [escape_ball_1, escape_ball_2]"

definition escape_app_1 :: app where
  "escape_app_1 = escape_app\<lparr>b2w_table := [PInf, Fin 9]\<rparr>"

text \<open>The state after the first event of the escape scenario: the wall collision of the
  second ball at time 9.\<close>

definition escape_app_2 :: app where
  "escape_app_2 =
     escape_app_1\<lparr>time := Fin 9, total_kinetic_energy := Fin 1, rms_speed := Fin 1,
       pressure := Fin 2 / (Fin 2 * Fin pi * Fin 10 * Fin 9), delta_p := Fin 2,
       total_wall_collisions := 1,
       balls :=
         [\<lparr>position = (Fin 18, Fin 0), velocity = (Fin 1, Fin 0), mass = Fin 1,
           radius = Fin 1, distance_travelled = Fin 9, ball_collisions = 0,
           wall_collisions = 0\<rparr>,
          \<lparr>position = (Fin 0, Fin 9), velocity = (Fin 0, Fin (- 1)), mass = Fin 1,
           radius = Fin 1, distance_travelled = Fin 9, ball_collisions = 0,
           wall_collisions = 1\<rparr>],
       b2w_table := [PInf, Fin 18]\<rparr>"

text \<open>
  The invariant of the event loop. A ball has finite data when its position, velocity
  and radius are finite. An entry \<open>e\<close> of the wall table is a sound horizon for a ball when
  it is a finite time \<open>h \<ge> 0\<close> up to which the ball stays inside, or \<open>+inf\<close> for a ball
  at rest inside. The invariant: the tables have the shape of the population, no entry of
  the pairwise table is negative or NaN, and every ball has finite data and a sound
  horizon in the wall table.
\<close>

definition finite_ball :: "ball \<Rightarrow> bool" where
  "finite_ball b = (finite_vec (position b) \<and> finite_vec (velocity b) \<and> is_fin (radius b))"

definition wall_horizon :: "fl \<Rightarrow> ball \<Rightarrow> fl \<Rightarrow> bool" where
  "wall_horizon R b e =
     (case e of
        Fin h \<Rightarrow> 0 \<le> h \<and> stays_inside R b h
      | PInf \<Rightarrow> velocity b = (Fin 0, Fin 0) \<and> contained R b
      | NInf \<Rightarrow> False
      | NaN \<Rightarrow> False)"

definition engine_invariant :: "app \<Rightarrow> bool" where
  "engine_invariant st =
     (is_fin (container_radius st) \<and>
      length (b2w_table st) = num_balls st \<and>
      square_table (num_balls st) (b2b_table st) \<and>
      (\<forall>x \<in> set (concat (b2b_table st)). Fin 0 \<le> x) \<and>
      (\<forall>k < num_balls st.
         finite_ball (balls st ! k) \<and>
         wall_horizon (container_radius st) (balls st ! k) (b2w_table st ! k)))"

text \<open>
  The wall root of ball \<open>k\<close> has been discarded by the floor: the ball moves, and its
  entry of the wall table is \<open>+inf\<close>. One iteration of the loop of \<open>render\<close> that completes
  and discards no wall root of a ball whose times it recomputes is an \<open>event_step\<close>.
\<close>

definition floor_discarded :: "app \<Rightarrow> nat \<Rightarrow> bool" where
  "floor_discarded st k =
     (b2w_table st ! k = PInf \<and> velocity (balls st ! k) \<noteq> (Fin 0, Fin 0))"

definition event_step :: "app \<Rightarrow> app \<Rightarrow> bool" where
  "event_step st st' =
     (case next_collision st of
        Inl e \<Rightarrow> False
      | Inr c \<Rightarrow> collide c st = Inr st' \<and> list_all (\<lambda>k. \<not> floor_discarded st' k) (fst c))"

section \<open>Properties of the collision physics\<close>

lemma is_fin_iff: "is_fin x \<longleftrightarrow> (\<exists>r. x = Fin r)"
  by (cases x) auto

lemma wall_real:
  fixes rx ry ux uy :: real
  assumes q: "rx * rx + ry * ry \<noteq> 0"
  defines "k \<equiv> 2 * (ux * rx + uy * ry) / (rx * rx + ry * ry)"
  shows "(ux - rx * k) * (ux - rx * k) + (uy - ry * k) * (uy - ry * k) = ux * ux + uy * uy"
proof -
  have kq: "k * (rx * rx + ry * ry) = 2 * (ux * rx + uy * ry)"
    using q by (simp add: k_def)
  have "(ux - rx * k) * (ux - rx * k) + (uy - ry * k) * (uy - ry * k)
      = ux * ux + uy * uy - k * (2 * (ux * rx + uy * ry)) + k * (k * (rx * rx + ry * ry))"
    by (simp add: algebra_simps)
  also have "\<dots> = ux * ux + uy * uy"
    unfolding kq by simp
  finally show ?thesis .
qed

lemma ball_real:
  fixes m1 m2 dx dy u1x u1y u2x u2y :: real
  assumes M: "m1 + m2 \<noteq> 0" and q: "dx * dx + dy * dy \<noteq> 0"
  defines "s \<equiv> 2 * (dx * (u1x - u2x) + dy * (u1y - u2y)) / ((m1 + m2) * (dx * dx + dy * dy))"
  shows "1 / 2 * m1 * ((u1x - dx * m2 * s) * (u1x - dx * m2 * s) + (u1y - dy * m2 * s) * (u1y - dy * m2 * s))
       + 1 / 2 * m2 * ((u2x + dx * m1 * s) * (u2x + dx * m1 * s) + (u2y + dy * m1 * s) * (u2y + dy * m1 * s))
       = 1 / 2 * m1 * (u1x * u1x + u1y * u1y) + 1 / 2 * m2 * (u2x * u2x + u2y * u2y)"
proof -
  let ?p = "dx * (u1x - u2x) + dy * (u1y - u2y)"
  let ?q = "dx * dx + dy * dy"
  have sq: "s * ((m1 + m2) * ?q) = 2 * ?p"
    using M q by (simp add: s_def)
  have "1 / 2 * m1 * ((u1x - dx * m2 * s) * (u1x - dx * m2 * s) + (u1y - dy * m2 * s) * (u1y - dy * m2 * s))
       + 1 / 2 * m2 * ((u2x + dx * m1 * s) * (u2x + dx * m1 * s) + (u2y + dy * m1 * s) * (u2y + dy * m1 * s))
      = 1 / 2 * m1 * (u1x * u1x + u1y * u1y) + 1 / 2 * m2 * (u2x * u2x + u2y * u2y)
        + m1 * m2 * s * ((s * ((m1 + m2) * ?q)) / 2 - ?p)"
    by (simp add: algebra_simps)
  also have "\<dots> = 1 / 2 * m1 * (u1x * u1x + u1y * u1y) + 1 / 2 * m2 * (u2x * u2x + u2y * u2y)"
    unfolding sq by simp
  finally show ?thesis .
qed


lemma finite_vecE:
  assumes "finite_vec v"
  obtains x y where "v = (Fin x, Fin y)"
  using assms by (cases v) (auto simp: finite_vec_def is_fin_iff)

lemma is_finE:
  assumes "is_fin x"
  obtains r where "x = Fin r"
  using assms by (auto simp: is_fin_iff)

text \<open>
  Claim C5. In exact arithmetic (all components finite), kinetic energy is invariant
  across both collision resolutions: the wall rebound of a ball whose position is not the
  origin has the same speed and the same kinetic energy, and the rebound of two balls with
  positive masses and distinct centres leaves the sum of their kinetic energies unchanged.
\<close>

theorem energy_conserved:
  "(finite_vec (position bl) \<and> finite_vec (velocity bl) \<and> is_fin (mass bl) \<and>
      position bl \<noteq> (Fin 0, Fin 0) \<longrightarrow>
      la_norm (velocity_after_wall_collision bl) = la_norm (velocity bl) \<and>
      kinetic_energy (update_velocity (velocity_after_wall_collision bl) bl)
        = kinetic_energy bl \<and>
      is_fin (kinetic_energy bl)) \<and>
   (finite_vec (position b1) \<and> finite_vec (velocity b1) \<and>
      finite_vec (position b2) \<and> finite_vec (velocity b2) \<and>
      Fin 0 < mass b1 \<and> mass b1 < PInf \<and> Fin 0 < mass b2 \<and> mass b2 < PInf \<and>
      position b1 \<noteq> position b2 \<longrightarrow>
      kinetic_energy (update_velocity (fst (velocity_after_ball_collision b1 b2)) b1)
        + kinetic_energy (update_velocity (snd (velocity_after_ball_collision b1 b2)) b2)
        = kinetic_energy b1 + kinetic_energy b2 \<and>
      is_fin (kinetic_energy b1 + kinetic_energy b2))"
proof (intro conjI impI)
  assume h: "finite_vec (position bl) \<and> finite_vec (velocity bl) \<and> is_fin (mass bl) \<and>
      position bl \<noteq> (Fin 0, Fin 0)"
  then obtain rx ry ux uy m where
    p: "position bl = (Fin rx, Fin ry)" and v: "velocity bl = (Fin ux, Fin uy)"
    and m: "mass bl = Fin m"
    by (metis finite_vecE is_finE)
  from h p have q: "rx * rx + ry * ry \<noteq> 0" by auto
  define vx where "vx = ux - rx * (2 * (ux * rx + uy * ry) / (rx * rx + ry * ry))"
  define vy where "vy = uy - ry * (2 * (ux * rx + uy * ry) / (rx * rx + ry * ry))"
  have e: "vx * vx + vy * vy = ux * ux + uy * uy"
    unfolding vx_def vy_def by (rule wall_real [OF q])
  have w: "velocity_after_wall_collision bl = (Fin vx, Fin vy)"
    using q by (simp add: velocity_after_wall_collision_def p v minus_fl_def vx_def vy_def)
  show "la_norm (velocity_after_wall_collision bl) = la_norm (velocity bl)"
    unfolding w v la_norm_def by (simp add: e)
  show "kinetic_energy (update_velocity (velocity_after_wall_collision bl) bl)
        = kinetic_energy bl"
    unfolding w by (simp add: kinetic_energy_def update_velocity_def v m e)
  show "is_fin (kinetic_energy bl)"
    by (simp add: kinetic_energy_def v m)
next
  assume h: "finite_vec (position b1) \<and> finite_vec (velocity b1) \<and>
      finite_vec (position b2) \<and> finite_vec (velocity b2) \<and>
      Fin 0 < mass b1 \<and> mass b1 < PInf \<and> Fin 0 < mass b2 \<and> mass b2 < PInf \<and>
      position b1 \<noteq> position b2"
  then obtain x1 y1 x2 y2 u1x u1y u2x u2y where
    p1: "position b1 = (Fin x1, Fin y1)" and p2: "position b2 = (Fin x2, Fin y2)" and
    v1: "velocity b1 = (Fin u1x, Fin u1y)" and v2: "velocity b2 = (Fin u2x, Fin u2y)"
    by (metis finite_vecE)
  from h obtain m1 m2 where m1: "mass b1 = Fin m1" and m2: "mass b2 = Fin m2"
    and pos: "0 < m1" "0 < m2"
    by (cases "mass b1"; cases "mass b2") auto
  from pos have M: "m1 + m2 \<noteq> 0" by simp
  from h p1 p2 have "x1 - x2 \<noteq> 0 \<or> y1 - y2 \<noteq> 0" by auto
  then have q: "(x1 - x2) * (x1 - x2) + (y1 - y2) * (y1 - y2) \<noteq> 0" by auto
  define s where "s = 2 * ((x1 - x2) * (u1x - u2x) + (y1 - y2) * (u1y - u2y)) /
            ((m1 + m2) * ((x1 - x2) * (x1 - x2) + (y1 - y2) * (y1 - y2)))"
  define v1x where "v1x = u1x - (x1 - x2) * m2 * s"
  define v1y where "v1y = u1y - (y1 - y2) * m2 * s"
  define v2x where "v2x = u2x + (x1 - x2) * m1 * s"
  define v2y where "v2y = u2y + (y1 - y2) * m1 * s"
  have e: "1 / 2 * m1 * (v1x * v1x + v1y * v1y) + 1 / 2 * m2 * (v2x * v2x + v2y * v2y)
         = 1 / 2 * m1 * (u1x * u1x + u1y * u1y) + 1 / 2 * m2 * (u2x * u2x + u2y * u2y)"
    unfolding v1x_def v1y_def v2x_def v2y_def s_def by (rule ball_real [OF M q])
  have w: "velocity_after_ball_collision b1 b2 = ((Fin v1x, Fin v1y), (Fin v2x, Fin v2y))"
    using q M
    by (simp add: velocity_after_ball_collision_def p1 p2 v1 v2 m1 m2 minus_fl_def
        v1x_def v1y_def v2x_def v2y_def s_def)
  have "kinetic_energy (update_velocity (fst (velocity_after_ball_collision b1 b2)) b1)
        + kinetic_energy (update_velocity (snd (velocity_after_ball_collision b1 b2)) b2)
        = Fin (1 / 2 * m1 * (v1x * v1x + v1y * v1y) + 1 / 2 * m2 * (v2x * v2x + v2y * v2y))"
    unfolding w by (simp add: kinetic_energy_def update_velocity_def m1 m2)
  also have "\<dots> = kinetic_energy b1 + kinetic_energy b2"
    unfolding e by (simp add: kinetic_energy_def v1 v2 m1 m2)
  finally show "kinetic_energy (update_velocity (fst (velocity_after_ball_collision b1 b2)) b1)
        + kinetic_energy (update_velocity (snd (velocity_after_ball_collision b1 b2)) b2)
        = kinetic_energy b1 + kinetic_energy b2" .
  show "is_fin (kinetic_energy b1 + kinetic_energy b2)"
    by (simp add: kinetic_energy_def v1 v2 m1 m2)
qed



theorem energy_conserved_witness:
  "(finite_vec (position example_ball_2) \<and> finite_vec (velocity example_ball_2) \<and>
    is_fin (mass example_ball_2) \<and> position example_ball_2 \<noteq> (Fin 0, Fin 0) \<and>
    la_norm (velocity_after_wall_collision example_ball_2) = la_norm (velocity example_ball_2) \<and>
    kinetic_energy (update_velocity (velocity_after_wall_collision example_ball_2) example_ball_2)
      = Fin (3 / 2)) \<and>
   (finite_vec (position example_ball_1) \<and> finite_vec (velocity example_ball_1) \<and>
    finite_vec (position example_ball_2) \<and> finite_vec (velocity example_ball_2) \<and>
    Fin 0 < mass example_ball_1 \<and> mass example_ball_1 < PInf \<and>
    Fin 0 < mass example_ball_2 \<and> mass example_ball_2 < PInf \<and>
    position example_ball_1 \<noteq> position example_ball_2 \<and>
    kinetic_energy (update_velocity
        (fst (velocity_after_ball_collision example_ball_1 example_ball_2)) example_ball_1)
      + kinetic_energy (update_velocity
        (snd (velocity_after_ball_collision example_ball_1 example_ball_2)) example_ball_2)
      = Fin 2)"
  using energy_conserved [of example_ball_2 example_ball_1 example_ball_2]
  by (simp add: example_ball_1_def example_ball_2_def finite_vec_def kinetic_energy_def)

text \<open>
  Claim C6. In exact arithmetic, for two balls with positive masses and distinct centres,
  the velocities returned by \<open>velocity_after_ball_collision\<close> leave the total momentum
  \<open>m1 v1 + m2 v2\<close> unchanged.
\<close>

theorem momentum_conserved:
  assumes "finite_vec (position b1)" "finite_vec (velocity b1)"
    and "finite_vec (position b2)" "finite_vec (velocity b2)"
    and "Fin 0 < mass b1" "mass b1 < PInf" "Fin 0 < mass b2" "mass b2 < PInf"
    and "position b1 \<noteq> position b2"
  shows "vadd (momentum (update_velocity (fst (velocity_after_ball_collision b1 b2)) b1))
              (momentum (update_velocity (snd (velocity_after_ball_collision b1 b2)) b2))
         = vadd (momentum b1) (momentum b2)
       \<and> finite_vec (vadd (momentum b1) (momentum b2))"
proof -
  from assms obtain x1 y1 x2 y2 u1x u1y u2x u2y where
    p1: "position b1 = (Fin x1, Fin y1)" and p2: "position b2 = (Fin x2, Fin y2)" and
    v1: "velocity b1 = (Fin u1x, Fin u1y)" and v2: "velocity b2 = (Fin u2x, Fin u2y)"
    by (metis finite_vecE)
  from assms obtain m1 m2 where m1: "mass b1 = Fin m1" and m2: "mass b2 = Fin m2"
    and pos: "0 < m1" "0 < m2"
    by (cases "mass b1"; cases "mass b2") auto
  from pos have M: "m1 + m2 \<noteq> 0" by simp
  from assms p1 p2 have "x1 - x2 \<noteq> 0 \<or> y1 - y2 \<noteq> 0" by auto
  then have q: "(x1 - x2) * (x1 - x2) + (y1 - y2) * (y1 - y2) \<noteq> 0" by auto
  define s where "s = 2 * ((x1 - x2) * (u1x - u2x) + (y1 - y2) * (u1y - u2y)) /
            ((m1 + m2) * ((x1 - x2) * (x1 - x2) + (y1 - y2) * (y1 - y2)))"
  have w: "velocity_after_ball_collision b1 b2 =
      ((Fin (u1x - (x1 - x2) * m2 * s), Fin (u1y - (y1 - y2) * m2 * s)),
       (Fin (u2x + (x1 - x2) * m1 * s), Fin (u2y + (y1 - y2) * m1 * s)))"
    using q M
    by (simp add: velocity_after_ball_collision_def p1 p2 v1 v2 m1 m2 minus_fl_def s_def)
  have ex: "(u1x - (x1 - x2) * m2 * s) * m1 + (u2x + (x1 - x2) * m1 * s) * m2
          = u1x * m1 + u2x * m2"
    by (simp add: algebra_simps)
  have ey: "(u1y - (y1 - y2) * m2 * s) * m1 + (u2y + (y1 - y2) * m1 * s) * m2
          = u1y * m1 + u2y * m2"
    by (simp add: algebra_simps)
  have "vadd (momentum (update_velocity (fst (velocity_after_ball_collision b1 b2)) b1))
              (momentum (update_velocity (snd (velocity_after_ball_collision b1 b2)) b2))
         = vadd (momentum b1) (momentum b2)"
    unfolding w by (simp add: momentum_def update_velocity_def v1 v2 m1 m2 ex ey)
  moreover have "finite_vec (vadd (momentum b1) (momentum b2))"
    by (simp add: momentum_def v1 v2 m1 m2 finite_vec_def)
  ultimately show ?thesis by simp
qed

theorem momentum_conserved_witness:
  "finite_vec (position example_ball_1) \<and> finite_vec (velocity example_ball_1) \<and>
   finite_vec (position example_ball_2) \<and> finite_vec (velocity example_ball_2) \<and>
   Fin 0 < mass example_ball_1 \<and> mass example_ball_1 < PInf \<and>
   Fin 0 < mass example_ball_2 \<and> mass example_ball_2 < PInf \<and>
   position example_ball_1 \<noteq> position example_ball_2 \<and>
   vadd (momentum (update_velocity
           (fst (velocity_after_ball_collision example_ball_1 example_ball_2)) example_ball_1))
        (momentum (update_velocity
           (snd (velocity_after_ball_collision example_ball_1 example_ball_2)) example_ball_2))
     = (Fin (- 2), Fin 0)"
  using momentum_conserved [of example_ball_1 example_ball_2]
  by (simp add: example_ball_1_def example_ball_2_def finite_vec_def momentum_def)

text \<open>
  Claim C7, as amended. The constructor of a ball raises only when position or velocity
  does not have length two; otherwise it builds the ball and stores mass and radius as
  given, without any check. The claim as stated (a mass or radius that is not positive
  and finite is rejected) fails: see the counterexample below.
\<close>

theorem Ball_init_unchecked:
  "Ball_init pos vel m r =
     (if length pos = 2 \<and> length vel = 2
      then Inr \<lparr>position = (pos ! 0, pos ! 1), velocity = (vel ! 0, vel ! 1),
                mass = m, radius = r, distance_travelled = Fin 0,
                ball_collisions = 0, wall_collisions = 0\<rparr>
      else Inl FormatError)"
  by (simp add: Ball_init_def)

theorem Ball_init_unchecked_witness:
  "Ball_init [Fin 1, Fin 2] [Fin 3, Fin 4] (Fin 5) (Fin 6) =
     Inr \<lparr>position = (Fin 1, Fin 2), velocity = (Fin 3, Fin 4),
          mass = Fin 5, radius = Fin 6, distance_travelled = Fin 0,
          ball_collisions = 0, wall_collisions = 0\<rparr>
   \<and> Ball_init [Fin 1, Fin 2, Fin 0] [Fin 3, Fin 4] (Fin 5) (Fin 6) = Inl FormatError"
  using Ball_init_unchecked [of "[Fin 1, Fin 2]" "[Fin 3, Fin 4]" "Fin 5" "Fin 6"]
    Ball_init_unchecked [of "[Fin 1, Fin 2, Fin 0]" "[Fin 3, Fin 4]" "Fin 5" "Fin 6"]
  by simp

theorem Ball_init_invalid_counterexample:
  "Ball_init [Fin 0, Fin 0] [Fin 1, Fin 0] (Fin (- 1)) NaN =
     Inr \<lparr>position = (Fin 0, Fin 0), velocity = (Fin 1, Fin 0),
          mass = Fin (- 1), radius = NaN, distance_travelled = Fin 0,
          ball_collisions = 0, wall_collisions = 0\<rparr>"
  by (simp add: Ball_init_def)

section \<open>The root finder\<close>

lemma np_amin_Min: "xs \<noteq> [] \<Longrightarrow> np_amin xs = Min (set xs)"
proof (cases xs)
  case Nil
  assume "xs \<noteq> []"
  with Nil show ?thesis by simp
next
  case (Cons x ys)
  have "np_amin (x # ys) = fold min ys x" by simp
  also have "\<dots> = Min (set (x # ys))" by (rule Min.set_eq_fold [symmetric])
  finally show ?thesis using Cons by simp
qed

lemma monic_root_iff:
  fixes t q1 q0 :: real
  shows "t * t - q1 * t - q0 = 0 \<longleftrightarrow> (2 * t - q1) * (2 * t - q1) = q1 * q1 + 4 * q0"
  by (auto simp: algebra_simps)

lemma square_eq_sqrt_iff:
  fixes x d :: real
  assumes "0 \<le> d"
  shows "x * x = d \<longleftrightarrow> x = sqrt d \<or> x = - sqrt d"
proof -
  have "x * x = d \<longleftrightarrow> x\<^sup>2 = (sqrt d)\<^sup>2"
    using assms by (simp add: power2_eq_square)
  also have "\<dots> \<longleftrightarrow> x = sqrt d \<or> x = - sqrt d"
    by (rule power2_eq_iff)
  finally show ?thesis .
qed

lemma real_parts_list:
  "Re ` {t \<in> set rs. Im t = 0} = set (map Re (filter (\<lambda>t. Im t = 0) rs))"
  by auto

lemma eigvals2_real_roots:
  "Re ` {t \<in> set (eigvals2 q1 q0). Im t = 0} = {t. t * t - q1 * t - q0 = 0}"
proof (cases "0 \<le> q1 * q1 + 4 * q0")
  case True
  define s where "s = sqrt (q1 * q1 + 4 * q0)"
  have r: "t * t - q1 * t - q0 = 0 \<longleftrightarrow> t = (q1 + s) / 2 \<or> t = (q1 - s) / 2" for t
  proof -
    have "t * t - q1 * t - q0 = 0 \<longleftrightarrow> 2 * t - q1 = s \<or> 2 * t - q1 = - s"
      unfolding monic_root_iff s_def by (rule square_eq_sqrt_iff [OF True])
    also have "\<dots> \<longleftrightarrow> t = (q1 + s) / 2 \<or> t = (q1 - s) / 2"
      by argo
    finally show ?thesis .
  qed
  have e: "eigvals2 q1 q0 = [Complex ((q1 + s) / 2) 0, Complex ((q1 - s) / 2) 0]"
    using True by (simp add: eigvals2_def Let_def s_def)
  have "Re ` {t \<in> set (eigvals2 q1 q0). Im t = 0} = {(q1 + s) / 2, (q1 - s) / 2}"
    unfolding real_parts_list e by simp
  moreover have "{t. t * t - q1 * t - q0 = 0} = {(q1 + s) / 2, (q1 - s) / 2}"
    unfolding r by auto
  ultimately show ?thesis by simp
next
  case False
  then have neg: "q1 * q1 + 4 * q0 < 0" by simp
  then have nz: "sqrt (- (q1 * q1 + 4 * q0)) \<noteq> 0" by simp
  have none: "t * t - q1 * t - q0 \<noteq> 0" for t
  proof
    assume "t * t - q1 * t - q0 = 0"
    then have "(2 * t - q1) * (2 * t - q1) = q1 * q1 + 4 * q0"
      by (simp only: monic_root_iff)
    moreover have "0 \<le> (2 * t - q1) * (2 * t - q1)" by simp
    ultimately show False using neg by linarith
  qed
  have e: "eigvals2 q1 q0 =
      [Complex (q1 / 2) (sqrt (- (q1 * q1 + 4 * q0)) / 2),
       Complex (q1 / 2) (- (sqrt (- (q1 * q1 + 4 * q0)) / 2))]"
    using False by (simp add: eigvals2_def Let_def)
  have "Re ` {t \<in> set (eigvals2 q1 q0). Im t = 0} = {}"
    unfolding real_parts_list e using nz by simp
  moreover have "{t. t * t - q1 * t - q0 = 0} = {}"
    using none by simp
  ultimately show ?thesis by simp
qed

lemma monic_scale:
  fixes a b c t :: real
  assumes "a \<noteq> 0"
  shows "t * t - (- b / a) * t - (- c / a) = 0 \<longleftrightarrow> a * t * t + b * t + c = 0"
proof -
  have e: "a * t * t + b * t + c = a * (t * t - (- b / a) * t - (- c / a))"
    using assms by (simp add: field_simps)
  have "a * t * t + b * t + c = 0 \<longleftrightarrow> a * (t * t - (- b / a) * t - (- c / a)) = 0"
    by (simp only: e)
  also have "\<dots> \<longleftrightarrow> t * t - (- b / a) * t - (- c / a) = 0"
    using assms by (simp only: mult_eq_0_iff) simp
  finally show ?thesis by simp
qed

lemma lin_root:
  fixes b c t :: real
  assumes "b \<noteq> 0"
  shows "(b * t + c = 0) = (t = - c / b)"
proof -
  have "(b * t + c = 0) = (t * b = - c)"
    by (simp add: mult.commute) argo
  also have "\<dots> = (t = - c / b)"
    by (rule nonzero_eq_divide_eq [OF assms, symmetric])
  finally show ?thesis .
qed

lemma quad_root_c0:
  fixes a b t :: real
  assumes "a \<noteq> 0"
  shows "(a * t * t + b * t = 0) = (t = - b / a \<or> t = 0)"
proof -
  have "a * t * t + b * t = t * (a * t + b)" by (simp add: algebra_simps)
  then have "(a * t * t + b * t = 0) = (t = 0 \<or> a * t + b = 0)"
    by (simp only: mult_eq_0_iff)
  also have "\<dots> = (t = - b / a \<or> t = 0)"
    unfolding lin_root [OF assms] by blast
  finally show ?thesis .
qed

subsection \<open>Overflow of the quotients\<close>

lemma float_overflow_lower: "2 ^ 1023 \<le> float_overflow"
proof -
  have "(1::real) \<le> 2 - 1 / 2 ^ 53" by simp
  then have "1 * (2::real) ^ 1023 \<le> (2 - 1 / 2 ^ 53) * 2 ^ 1023"
    by (rule mult_right_mono) simp
  then show ?thesis by (simp only: float_overflow_def mult_1)
qed

lemma float_overflow_upper: "float_overflow \<le> 2 ^ 1024"
proof -
  have "(2 - 1 / 2 ^ 53) * (2::real) ^ 1023 \<le> 2 * 2 ^ 1023"
    by (rule mult_right_mono) simp_all
  also have "(2::real) * 2 ^ 1023 = 2 ^ Suc 1023" by (simp only: power_Suc)
  also have "Suc 1023 = 1024" by simp
  finally show ?thesis by (simp only: float_overflow_def)
qed

lemma float_overflow_pos: "0 < float_overflow"
proof -
  have "(0::real) < 2 ^ 1023" by (rule zero_less_power) simp
  then show ?thesis using float_overflow_lower by linarith
qed

lemma quotient_overflows_zero [simp]:
  "\<not> quotient_overflows 0 y" "\<not> quotient_overflows x 0"
  using float_overflow_pos by (simp_all add: quotient_overflows_def)

lemma quotient_overflows_minus [simp]:
  "quotient_overflows (- x) y = quotient_overflows x y"
  by (simp add: quotient_overflows_def)

text \<open>Quotients of moderate size are in range.\<close>

lemma small_quotient:
  assumes "\<bar>x / y\<bar> \<le> 1000"
  shows "\<not> quotient_overflows x y"
proof -
  have "(1000::real) < 2 ^ 10" by simp
  also have "(2::real) ^ 10 \<le> 2 ^ 1023" by (rule power_increasing) simp_all
  finally have "\<bar>x / y\<bar> < float_overflow"
    using assms float_overflow_lower by linarith
  then show ?thesis by (simp add: quotient_overflows_def)
qed

lemma np_divide_Fin:
  "y \<noteq> 0 \<Longrightarrow>
   np_divide (Fin x) (Fin y) =
     (if quotient_overflows x y then (if 0 < x / y then PInf else NInf) else Fin (x / y))"
  by (simp add: np_divide_def quotient_overflows_def)

text \<open>A quotient that comes out finite is the exact quotient.\<close>

lemma np_divide_finite: "np_divide x y = Fin q \<Longrightarrow> x / y = Fin q"
  by (cases "x / y") (simp_all add: np_divide_def split: if_splits)

lemma np_divide_not_finite: "\<not> is_fin (x / y) \<Longrightarrow> np_divide x y = x / y"
  by (cases "x / y") (simp_all add: np_divide_def)

subsection \<open>The roots of finite coefficients\<close>

lemma np_roots_overflow:
  assumes "coefficients_overflow a b c"
  shows "np_roots (Fin a) (Fin b) (Fin c) = Inl LinAlgError"
proof (cases "a = 0")
  case True
  with assms have o: "quotient_overflows c b"
    by (simp add: coefficients_overflow_def)
  then have "b \<noteq> 0" "c \<noteq> 0" by auto
  with True o show ?thesis
    by (simp add: np_roots_def nonzero_def np_divide_Fin)
next
  case a: False
  with assms have o: "quotient_overflows b a \<or> quotient_overflows c a"
    by (simp add: coefficients_overflow_def)
  show ?thesis
  proof (cases "c = 0")
    case True
    with o have ob: "quotient_overflows b a" by simp
    then have "b \<noteq> 0" by auto
    with a True ob show ?thesis
      by (simp add: np_roots_def nonzero_def np_divide_Fin)
  next
    case False
    with a o show ?thesis
      by (auto simp: np_roots_def nonzero_def np_divide_Fin)
  qed
qed

lemma np_roots_finite:
  assumes no: "\<not> coefficients_overflow a b c"
  shows "\<exists>rs. np_roots (Fin a) (Fin b) (Fin c) = Inr rs \<and>
     (a \<noteq> 0 \<or> b \<noteq> 0 \<or> c \<noteq> 0 \<longrightarrow>
        Re ` {t \<in> set rs. Im t = 0} = real_roots a b c)"
proof (cases "a = 0")
  case a0: True
  show ?thesis
  proof (cases "b = 0")
    case True
    with a0 show ?thesis
      by (simp add: np_roots_def nonzero_def real_roots_def)
  next
    case b: False
    from no a0 have nq: "\<not> quotient_overflows c b"
      by (simp add: coefficients_overflow_def)
    have rr: "real_roots a b c = {- c / b}"
      unfolding real_roots_def a0 by (simp add: lin_root [OF b])
    show ?thesis
    proof (cases "c = 0")
      case True
      have e: "np_roots (Fin a) (Fin b) (Fin c) = Inr [Complex 0 0]"
        using a0 b True by (simp add: np_roots_def nonzero_def)
      have "Re ` {t \<in> set [Complex 0 0]. Im t = 0} = {0}"
        unfolding real_parts_list by simp
      then show ?thesis
        unfolding e rr using True by simp
    next
      case False
      have e: "np_roots (Fin a) (Fin b) (Fin c) = Inr [Complex (- c / b) 0]"
        using a0 b False nq by (simp add: np_roots_def nonzero_def np_divide_Fin)
      have "Re ` {t \<in> set [Complex (- c / b) 0]. Im t = 0} = {- c / b}"
        unfolding real_parts_list by simp
      then show ?thesis
        unfolding e rr by simp
    qed
  qed
next
  case a: False
  from no have nb: "\<not> quotient_overflows b a" and nc: "\<not> quotient_overflows c a"
    by (simp_all add: coefficients_overflow_def)
  show ?thesis
  proof (cases "c = 0")
    case c: False
    have "np_roots (Fin a) (Fin b) (Fin c) = Inr (eigvals2 (- b / a) (- c / a))"
      using a c nb nc by (simp add: np_roots_def nonzero_def np_divide_Fin)
    moreover have "Re ` {t \<in> set (eigvals2 (- b / a) (- c / a)). Im t = 0}
        = real_roots a b c"
      unfolding eigvals2_real_roots real_roots_def monic_scale [OF a] ..
    ultimately show ?thesis by simp
  next
    case c: True
    have "{t. a * t * t + b * t = 0} = {- b / a, 0}"
      unfolding quad_root_c0 [OF a] by blast
    then have rr: "real_roots a b c = {- b / a, 0}"
      unfolding real_roots_def c by simp
    show ?thesis
    proof (cases "b = 0")
      case True
      have e: "np_roots (Fin a) (Fin b) (Fin c) = Inr [Complex 0 0, Complex 0 0]"
        using a c True by (simp add: np_roots_def nonzero_def)
      have "Re ` {t \<in> set [Complex 0 0, Complex 0 0]. Im t = 0} = {0}"
        unfolding real_parts_list by simp
      then show ?thesis
        unfolding e rr using True by simp
    next
      case False
      have e: "np_roots (Fin a) (Fin b) (Fin c) = Inr [Complex (- b / a) 0, Complex 0 0]"
        using a c False nb by (simp add: np_roots_def nonzero_def np_divide_Fin)
      have "Re ` {t \<in> set [Complex (- b / a) 0, Complex 0 0]. Im t = 0} = {- b / a, 0}"
        unfolding real_parts_list by simp
      then show ?thesis
        unfolding e rr by simp
    qed
  qed
qed

lemma predict_collision_time_overflow:
  "coefficients_overflow a b c \<Longrightarrow>
   predict_collision_time (Fin a) (Fin b) (Fin c) = Inl LinAlgError"
  by (simp add: predict_collision_time_def np_roots_overflow)

text \<open>The smallest real root above the floor, or \<open>+inf\<close> when there is none.\<close>

lemma predict_collision_time_least_root:
  assumes no: "\<not> coefficients_overflow a b c" and nz: "a \<noteq> 0 \<or> b \<noteq> 0 \<or> c \<noteq> 0"
  shows "predict_collision_time (Fin a) (Fin b) (Fin c) =
           Inr (if {t \<in> real_roots a b c. time_floor < t} = {} then PInf
                else Fin (Min {t \<in> real_roots a b c. time_floor < t}))"
proof -
  obtain rs where rs: "np_roots (Fin a) (Fin b) (Fin c) = Inr rs"
    and set: "Re ` {t \<in> set rs. Im t = 0} = real_roots a b c"
    using np_roots_finite [OF no] nz by blast
  define ts where "ts = map Re (filter (\<lambda>t. Im t = 0 \<and> time_floor < Re t) rs)"
  have "set ts = {x \<in> Re ` {t \<in> set rs. Im t = 0}. time_floor < x}"
    unfolding ts_def by auto
  then have sts: "set ts = {t \<in> real_roots a b c. time_floor < t}"
    by (simp only: set)
  have "predict_collision_time (Fin a) (Fin b) (Fin c) =
          Inr (if ts = [] then PInf else Fin (np_amin ts))"
    by (simp add: predict_collision_time_def rs ts_def Let_def)
  also have "\<dots> = Inr (if set ts = {} then PInf else Fin (Min (set ts)))"
    by (simp add: np_amin_Min)
  finally show ?thesis by (simp only: sts)
qed

lemma discriminant_identity:
  fixes a b c t :: real
  shows "(2 * a * t + b) * (2 * a * t + b) = 4 * a * (a * t * t + b * t + c) + (b * b - 4 * a * c)"
  by (simp add: algebra_simps)

lemma negative_discriminant_no_roots:
  fixes a b c :: real
  assumes "b * b - 4 * a * c < 0"
  shows "real_roots a b c = {}" and "a \<noteq> 0"
proof -
  have "a * t * t + b * t + c \<noteq> 0" for t
  proof
    assume "a * t * t + b * t + c = 0"
    then have "(2 * a * t + b) * (2 * a * t + b) = b * b - 4 * a * c"
      unfolding discriminant_identity [of a t b c] by simp
    moreover have "0 \<le> (2 * a * t + b) * (2 * a * t + b)" by simp
    ultimately show False using assms by linarith
  qed
  then show "real_roots a b c = {}" by (simp add: real_roots_def)
  show "a \<noteq> 0"
  proof
    assume "a = 0"
    with assms have "b * b < 0" by simp
    moreover have "0 \<le> b * b" by simp
    ultimately show False by linarith
  qed
qed

lemma factored_roots:
  fixes a b c t1 t2 :: real
  assumes a: "a \<noteq> 0" and f: "\<forall>t. a * t * t + b * t + c = a * (t - t1) * (t - t2)"
  shows "real_roots a b c = {t1, t2}"
proof -
  have "(a * t * t + b * t + c = 0) = (t = t1 \<or> t = t2)" for t
  proof -
    have "(a * t * t + b * t + c = 0) = (a * (t - t1) * (t - t2) = 0)"
      using f by simp
    also have "\<dots> = (t - t1 = 0 \<or> t - t2 = 0)"
      using a by (simp only: mult_eq_0_iff) simp
    also have "\<dots> = (t = t1 \<or> t = t2)" by simp
    finally show ?thesis .
  qed
  then show ?thesis unfolding real_roots_def by blast
qed

text \<open>The degenerate quadratic: a linear or constant polynomial.\<close>

lemma predict_collision_time_linear:
  "predict_collision_time (Fin 0) (Fin b) (Fin c) =
     (if quotient_overflows c b then Inl LinAlgError
      else Inr (if b \<noteq> 0 \<and> time_floor < - c / b then Fin (- c / b) else PInf))"
proof (cases "b = 0")
  case True
  then show ?thesis
    by (simp add: predict_collision_time_def np_roots_def nonzero_def)
next
  case b: False
  show ?thesis
  proof (cases "c = 0")
    case True
    with b show ?thesis
      by (simp add: predict_collision_time_def np_roots_def nonzero_def time_floor_def)
  next
    case False
    with b show ?thesis
      by (simp add: predict_collision_time_def np_roots_def nonzero_def np_divide_Fin)
  qed
qed

lemma predict_collision_time_constant:
  "predict_collision_time (Fin 0) (Fin 0) c = Inr PInf"
  by (simp add: predict_collision_time_def np_roots_def nonzero_def)

text \<open>Two powers of two whose quotient is out of range.\<close>

lemma power_quotient_overflows: "quotient_overflows (2 ^ 600) (1 / 2 ^ 600)"
proof -
  have "(2::real) ^ 600 / (1 / 2 ^ 600) = 2 ^ 600 * 2 ^ 600" by simp
  also have "\<dots> = 2 ^ (600 + 600)" by (simp only: power_add)
  finally have q: "(2::real) ^ 600 / (1 / 2 ^ 600) = 2 ^ 1200" by simp
  have "(2::real) ^ 1024 \<le> 2 ^ 1200" by (rule power_increasing) simp_all
  with float_overflow_upper have "float_overflow \<le> (2::real) ^ 1200" by linarith
  then show ?thesis
    unfolding quotient_overflows_def q by simp
qed







section \<open>Evaluating the engine on concrete states\<close>

lemma predict_collision_time_factored:
  assumes no: "\<not> coefficients_overflow a b c" and a: "a \<noteq> 0"
    and f: "\<forall>t. a * t * t + b * t + c = a * (t - t1) * (t - t2)"
  shows "predict_collision_time (Fin a) (Fin b) (Fin c) =
           Inr (if time_floor < min t1 t2 then Fin (min t1 t2)
                else if time_floor < max t1 t2 then Fin (max t1 t2) else PInf)"
proof -
  have rr: "real_roots a b c = {t1, t2}"
    using a f by (rule factored_roots)
  let ?S = "{t \<in> real_roots a b c. time_floor < t}"
  have p: "predict_collision_time (Fin a) (Fin b) (Fin c) =
             Inr (if ?S = {} then PInf else Fin (Min ?S))"
    using no a by (simp add: predict_collision_time_least_root)
  consider (both) "time_floor < t1" "time_floor < t2"
    | (first) "time_floor < t1" "\<not> time_floor < t2"
    | (second) "\<not> time_floor < t1" "time_floor < t2"
    | (none) "\<not> time_floor < t1" "\<not> time_floor < t2"
    by blast
  then show ?thesis
  proof cases
    case both
    then have "?S = {t1, t2}" unfolding rr by auto
    with both show ?thesis unfolding p by simp
  next
    case first
    then have "?S = {t1}" unfolding rr by auto
    with first show ?thesis unfolding p by (simp add: min_def max_def)
  next
    case second
    then have "?S = {t2}" unfolding rr by auto
    with second show ?thesis unfolding p by (simp add: min_def max_def)
  next
    case none
    then have "?S = {}" unfolding rr by auto
    with none show ?thesis unfolding p by (simp add: min_def max_def)
  qed
qed

lemma head_on_wall_time:
  "predict_collision_time (Fin 1) (Fin (- 6)) (Fin (- 72)) = Inr (Fin 12)"
proof -
  have "\<forall>t::real. 1 * t * t + (- 6) * t + (- 72) = 1 * (t - 12) * (t - (- 6))"
    by (simp add: algebra_simps)
  then show ?thesis
    by (subst predict_collision_time_factored [where ?t1.0 = 12 and ?t2.0 = "- 6"])
       (simp_all add: time_floor_def coefficients_overflow_def small_quotient)
qed

lemma head_on_ball_time:
  "predict_collision_time (Fin 4) (Fin (- 24)) (Fin 32) = Inr (Fin 2)"
proof -
  have "\<forall>t::real. 4 * t * t + (- 24) * t + 32 = 4 * (t - 2) * (t - 4)"
    by (simp add: algebra_simps)
  then show ?thesis
    by (subst predict_collision_time_factored [where ?t1.0 = 2 and ?t2.0 = 4])
       (simp_all add: time_floor_def coefficients_overflow_def small_quotient)
qed

lemma head_on_init_table: "init_table head_on_app = Inr head_on_app_1"
  by (simp add: init_table_def head_on_app_def head_on_app_1_def new_app_def num_balls_def
      head_on_ball_1_def head_on_ball_2_def next_wall_collision_def next_ball_collision_def
      minus_fl_def head_on_wall_time head_on_ball_time np_full1_def np_full2_def set_b2b_def
      upt_rec numeral_2_eq_2)

lemma head_on_recalculate:
  "recalculate_collision [0, 1] head_on_app_1 = Inr head_on_app_1"
  by (simp add: head_on_app_def head_on_app_1_def new_app_def num_balls_def
      head_on_ball_1_def head_on_ball_2_def next_wall_collision_def next_ball_collision_def
      minus_fl_def head_on_wall_time head_on_ball_time set_b2b_def Let_def
      upt_rec numeral_2_eq_2)

lemma head_on_next_collision:
  "next_collision head_on_app_1 = Inr ([0, 1], Fin 2)"
  by (simp add: next_collision_def head_on_app_def head_on_app_1_def new_app_def
      np_argmin_def Let_def)

lemma tie_wall_time:
  "predict_collision_time (Fin 1) (Fin 14) (Fin (- 32)) = Inr (Fin 2)"
proof -
  have "\<forall>t::real. 1 * t * t + 14 * t + (- 32) = 1 * (t - 2) * (t - (- 16))"
    by (simp add: algebra_simps)
  then show ?thesis
    by (subst predict_collision_time_factored [where ?t1.0 = 2 and ?t2.0 = "- 16"])
       (simp_all add: time_floor_def coefficients_overflow_def small_quotient)
qed

lemma tie_ball_time:
  "predict_collision_time (Fin 2) (Fin 8) (Fin 54) = Inr PInf"
proof -
  have "(8::real) * 8 - 4 * 2 * 54 < 0" by simp
  from negative_discriminant_no_roots [OF this] show ?thesis
    by (simp add: predict_collision_time_least_root coefficients_overflow_def
        small_quotient)
qed

lemma tie_init_table: "init_table tie_app = Inr tie_app_1"
  by (simp add: init_table_def tie_app_def tie_app_1_def new_app_def num_balls_def
      head_on_ball_1_def head_on_ball_2_def tie_ball_3_def
      next_wall_collision_def next_ball_collision_def
      minus_fl_def head_on_wall_time head_on_ball_time tie_wall_time tie_ball_time
      np_full1_def np_full2_def set_b2b_def upt_rec numeral_3_eq_3)

lemma head_on_wall_time_2:
  "predict_collision_time (Fin 1) (Fin 2) (Fin (- 80)) = Inr (Fin 8)"
proof -
  have "\<forall>t::real. 1 * t * t + 2 * t + (- 80) = 1 * (t - 8) * (t - (- 10))"
    by (simp add: algebra_simps)
  then show ?thesis
    by (subst predict_collision_time_factored [where ?t1.0 = 8 and ?t2.0 = "- 10"])
       (simp_all add: time_floor_def coefficients_overflow_def small_quotient)
qed

lemma head_on_ball_time_2:
  "predict_collision_time (Fin 4) (Fin 8) (Fin 0) = Inr PInf"
proof -
  have "\<forall>t::real. 4 * t * t + 8 * t + 0 = 4 * (t - 0) * (t - (- 2))"
    by (simp add: algebra_simps)
  then show ?thesis
    by (subst predict_collision_time_factored [where ?t1.0 = 0 and ?t2.0 = "- 2"])
       (simp_all add: time_floor_def coefficients_overflow_def small_quotient)
qed

lemma head_on_collide:
  "collide ([0, 1], Fin 2) head_on_app_1 = Inr head_on_app_2"
  by (simp add: collide_def ball_collision_def update_table_def update_state_def
      update_position_def update_velocity_def velocity_after_ball_collision_def
      head_on_app_def head_on_app_1_def head_on_app_2_def new_app_def num_balls_def
      head_on_ball_1_def head_on_ball_2_def next_wall_collision_def next_ball_collision_def
      kinetic_energy_def speed_squared_def la_norm_def
      minus_fl_def head_on_wall_time_2 head_on_ball_time_2 set_b2b_def Let_def
      upt_rec numeral_2_eq_2)

lemma sqrt_9: "sqrt 9 = 3"
  using real_sqrt_abs2 [of 3] by simp

lemma sqrt_81: "sqrt 81 = 9"
  using real_sqrt_abs2 [of 9] by simp

lemma sqrt_324: "sqrt 324 = 18"
  using real_sqrt_abs2 [of 18] by simp

lemma escape_wall_time_1:
  "predict_collision_time (Fin 1) (Fin 18) (Fin 0) = Inr PInf"
proof -
  have "\<forall>t::real. 1 * t * t + 18 * t + 0 = 1 * (t - 0) * (t - (- 18))"
    by (simp add: algebra_simps)
  then show ?thesis
    by (subst predict_collision_time_factored [where ?t1.0 = 0 and ?t2.0 = "- 18"])
       (simp_all add: time_floor_def coefficients_overflow_def small_quotient)
qed

lemma escape_wall_time_2:
  "predict_collision_time (Fin 1) (Fin 0) (Fin (- 81)) = Inr (Fin 9)"
proof -
  have "\<forall>t::real. 1 * t * t + 0 * t + (- 81) = 1 * (t - 9) * (t - (- 9))"
    by (simp add: algebra_simps)
  then show ?thesis
    by (subst predict_collision_time_factored [where ?t1.0 = 9 and ?t2.0 = "- 9"])
       (simp_all add: time_floor_def coefficients_overflow_def small_quotient)
qed

lemma escape_ball_time:
  "predict_collision_time (Fin 2) (Fin 18) (Fin 77) = Inr PInf"
proof -
  have "(18::real) * 18 - 4 * 2 * 77 < 0" by simp
  from negative_discriminant_no_roots [OF this] show ?thesis
    by (simp add: predict_collision_time_least_root coefficients_overflow_def
        small_quotient)
qed

lemma escape_wall_time_3:
  "predict_collision_time (Fin 1) (Fin (- 18)) (Fin 0) = Inr (Fin 18)"
proof -
  have "\<forall>t::real. 1 * t * t + (- 18) * t + 0 = 1 * (t - 0) * (t - 18)"
    by (simp add: algebra_simps)
  then show ?thesis
    by (subst predict_collision_time_factored [where ?t1.0 = 0 and ?t2.0 = 18])
       (simp_all add: time_floor_def coefficients_overflow_def small_quotient)
qed

lemma escape_ball_time_2:
  "predict_collision_time (Fin 2) (Fin 18) (Fin 401) = Inr PInf"
proof -
  have "(18::real) * 18 - 4 * 2 * 401 < 0" by simp
  from negative_discriminant_no_roots [OF this] show ?thesis
    by (simp add: predict_collision_time_least_root coefficients_overflow_def
        small_quotient)
qed

lemma escape_init_table: "init_table escape_app = Inr escape_app_1"
  by (simp add: init_table_def escape_app_def escape_app_1_def new_app_def num_balls_def
      escape_ball_1_def escape_ball_2_def next_wall_collision_def next_ball_collision_def
      minus_fl_def escape_wall_time_1 escape_wall_time_2 escape_ball_time
      np_full1_def np_full2_def set_b2b_def upt_rec numeral_2_eq_2)

lemma escape_next_collision: "next_collision escape_app_1 = Inr ([1], Fin 9)"
  by (simp add: next_collision_def escape_app_def escape_app_1_def new_app_def
      np_argmin_def Let_def np_full1_def np_full2_def numeral_2_eq_2)

lemma escape_collide: "collide ([1], Fin 9) escape_app_1 = Inr escape_app_2"
  by (simp add: collide_def wall_collision_def update_table_def update_state_def
      update_position_def update_velocity_def velocity_after_wall_collision_def
      escape_app_def escape_app_1_def escape_app_2_def new_app_def num_balls_def
      escape_ball_1_def escape_ball_2_def next_wall_collision_def next_ball_collision_def
      kinetic_energy_def speed_squared_def la_norm_def sqrt_81
      minus_fl_def escape_wall_time_3 escape_ball_time_2 set_b2b_def Let_def
      np_full1_def np_full2_def upt_rec numeral_2_eq_2)

lemma head_on_next_wall:
  "next_wall_collision head_on_ball_1 (Fin 10) = Inr (Fin 12)"
  by (simp add: head_on_ball_1_def next_wall_collision_def minus_fl_def head_on_wall_time)

section \<open>Properties of the engine\<close>

text \<open>
  Claim C3, as amended. \<open>update_state(dt)\<close> advances the clock to \<open>t_old + dt\<close> first and
  computes the pressure from the advanced clock: \<open>delta_p / (circumference (t_old + dt))\<close>
  when \<open>t_old + dt > 0\<close>, and \<open>0\<close> otherwise. The claim as stated (the pressure uses
  \<open>t_old\<close>, so that it is \<open>0\<close> at the first event) fails: see the counterexample below.
\<close>

theorem update_state_pressure:
  "balls st \<noteq> [] \<Longrightarrow>
   \<exists>st'. update_state dt st = Inr st' \<and>
         time st' = time st + dt \<and>
         pressure st' =
           (if Fin 0 < time st + dt
            then delta_p st / (container_circumference st * (time st + dt))
            else Fin 0)"
  by (simp add: update_state_def Let_def num_balls_def)

theorem update_state_pressure_witness:
  "balls example_app_1 \<noteq> [] \<and>
   (\<exists>st'. update_state (Fin 1) example_app_1 = Inr st' \<and>
          time st' = Fin 1 \<and> pressure st' = Fin (1 / (10 * pi)))"
  using update_state_pressure [of example_app_1 "Fin 1"]
  by (simp add: example_app_1_def new_app_def)

theorem update_state_pressure_counterexample:
  "time example_app_1 = Fin 0 \<and>
   map_sum id pressure (update_state (Fin 1) example_app_1) = Inr (Fin (1 / (10 * pi))) \<and>
   Fin (1 / (10 * pi)) \<noteq> Fin 0"
  by (simp add: example_app_1_def new_app_def update_state_def Let_def num_balls_def)

subsection \<open>The collision tables\<close>

lemma argmin_scan_bound:
  "bi < k \<Longrightarrow> argmin_scan bi bv k xs < k + length xs"
proof (induction xs arbitrary: bi bv k)
  case Nil
  then show ?case by simp
next
  case (Cons x xs)
  have a: "argmin_scan k x (Suc k) xs < Suc k + length xs"
    by (rule Cons.IH) simp
  have b: "argmin_scan bi bv (Suc k) xs < Suc k + length xs"
    by (rule Cons.IH) (use Cons.prems in simp)
  show ?case using a b Cons.prems by simp
qed

text \<open>The scan over \<open>pre @ xs\<close>: the best value is the entry at the best index.\<close>

lemma argmin_scan_not_PInf:
  assumes "bi < length pre" "k = length pre" "bv = pre ! bi"
    and "bv \<noteq> PInf \<or> (\<exists>x \<in> set xs. x \<noteq> PInf)"
  shows "(pre @ xs) ! argmin_scan bi bv k xs \<noteq> PInf"
  using assms
proof (induction xs arbitrary: bi bv k pre)
  case Nil
  then show ?case by (simp add: nth_append)
next
  case (Cons x xs)
  show ?case
  proof (cases "bv = NaN")
    case True
    with Cons.prems show ?thesis by (simp add: nth_append)
  next
    case nn: False
    show ?thesis
    proof (cases "bv \<le> x")
      case True
      have "bv \<noteq> PInf \<or> (\<exists>x \<in> set xs. x \<noteq> PInf)"
      proof (cases "bv = PInf")
        case True
        with \<open>bv \<le> x\<close> have "x = PInf" by (cases x) auto
        with Cons.prems True show ?thesis by auto
      qed simp
      then have "((pre @ [x]) @ xs) ! argmin_scan bi bv (Suc k) xs \<noteq> PInf"
        using Cons.prems by (intro Cons.IH) (auto simp: nth_append)
      with True nn show ?thesis by simp
    next
      case False
      then have "x \<noteq> PInf" using nn by (cases bv; cases x) auto
      then have "((pre @ [x]) @ xs) ! argmin_scan k x (Suc k) xs \<noteq> PInf"
        using Cons.prems by (intro Cons.IH) (auto simp: nth_append)
      with False nn show ?thesis by simp
    qed
  qed
qed

lemma np_argmin_not_PInf:
  assumes "\<exists>x \<in> set xs. x \<noteq> PInf"
  shows "\<exists>k. np_argmin xs = Inr k \<and> k < length xs \<and> xs ! k \<noteq> PInf"
proof (cases xs)
  case Nil
  with assms show ?thesis by simp
next
  case (Cons x ys)
  have "([x] @ ys) ! argmin_scan 0 x 1 ys \<noteq> PInf"
    using assms Cons by (intro argmin_scan_not_PInf) auto
  moreover have "argmin_scan 0 x 1 ys < 1 + length ys"
    by (rule argmin_scan_bound) simp
  ultimately show ?thesis using Cons by (simp add: np_argmin_def)
qed


lemma square_table_update:
  assumes "square_table n T"
  shows "square_table n (set_b2b i j v T)"
proof -
  have "length row = n" if "row \<in> set (T[i := (T ! i)[j := v]])" for row
  proof -
    from that have "row = (T ! i)[j := v] \<and> i < length T \<or> row \<in> set T"
      by (metis in_set_conv_nth length_list_update nth_list_update_eq nth_list_update_neq)
    then show ?thesis
      using assms by (auto simp: square_table_def)
  qed
  then show ?thesis
    using assms by (simp add: square_table_def set_b2b_def)
qed

lemma upper_triangular_update:
  assumes "i < j" and "upper_triangular T"
  shows "upper_triangular (set_b2b i j v T)"
  unfolding upper_triangular_def set_b2b_def
proof (intro allI impI)
  fix ia ja
  assume a: "ia < length (T[i := (T ! i)[j := v]])"
    and b: "ja < length (T[i := (T ! i)[j := v]] ! ia)" and c: "ja \<le> ia"
  show "T[i := (T ! i)[j := v]] ! ia ! ja = PInf"
  proof (cases "ia = i")
    case True
    with a b c assms(1) have "ja < length (T ! i)" "ja \<noteq> j" by simp_all
    with True a c assms(2) show ?thesis
      by (simp add: upper_triangular_def)
  next
    case False
    with a b c assms(2) show ?thesis
      by (simp add: upper_triangular_def)
  qed
qed

lemma b2b_invariant_update: "i < j \<Longrightarrow> b2b_invariant n T \<Longrightarrow> b2b_invariant n (set_b2b i j v T)"
  by (simp add: b2b_invariant_def square_table_update upper_triangular_update)

lemma init_table_row_invariant:
  "\<forall>j \<in> set js. i < j \<Longrightarrow> b2b_invariant n T \<Longrightarrow> init_table_row bs i js T = Inr T' \<Longrightarrow> b2b_invariant n T'"
proof (induction js arbitrary: T)
  case Nil
  then show ?case by simp
next
  case (Cons j js)
  then show ?case
    by (auto split: sum.splits intro: b2b_invariant_update)
qed

lemma init_table_loop_invariant:
  "b2b_invariant n (b2b_table st) \<Longrightarrow> init_table_loop is st = Inr st' \<Longrightarrow> b2b_invariant n (b2b_table st')"
proof (induction "is" arbitrary: st)
  case Nil
  then show ?case by simp
next
  case (Cons i "is")
  from Cons.prems(2) obtain t T where
    row: "init_table_row (balls st) i [i + 1 ..< num_balls st] (b2b_table st) = Inr T" and
    rest: "init_table_loop is (st\<lparr>b2w_table := (b2w_table st)[i := t], b2b_table := T\<rparr>) = Inr st'"
    by (auto split: sum.splits)
  have "b2b_invariant n T"
    using init_table_row_invariant [OF _ Cons.prems(1) row] by simp
  then show ?case
    using Cons.IH [OF _ rest] by simp
qed

lemma update_row_invariant:
  "\<forall>j \<in> set js. i < j \<Longrightarrow> b2b_invariant n T \<Longrightarrow>
   b2b_invariant n (fold (\<lambda>j T. set_b2b i j (T ! i ! j - dt) T) js T)"
  by (induction js arbitrary: T) (auto intro: b2b_invariant_update)

lemma update_rows_invariant:
  "b2b_invariant n T \<Longrightarrow>
   b2b_invariant n (fold (\<lambda>i T. fold (\<lambda>j T. set_b2b i j (T ! i ! j - dt) T) [i + 1 ..< l] T) is T)"
proof (induction "is" arbitrary: T)
  case Nil
  then show ?case by simp
next
  case (Cons i "is")
  have "b2b_invariant n (fold (\<lambda>j T. set_b2b i j (T ! i ! j - dt) T) [i + 1 ..< l] T)"
    using _ Cons.prems by (rule update_row_invariant) simp
  then show ?case
    using Cons.IH by simp
qed

lemma update_table_invariant:
  "b2b_invariant n (b2b_table st) \<Longrightarrow> b2b_invariant n (b2b_table (update_table dt st))"
  using update_rows_invariant [of n "b2b_table st" dt "length (b2b_table st)"
      "[0 ..< length (b2b_table st)]"]
  by (simp add: update_table_def Let_def)

lemma recalculate_row_invariant:
  "b2b_invariant n T \<Longrightarrow> recalculate_row bs i js T = Inr T' \<Longrightarrow> b2b_invariant n T'"
proof (induction js arbitrary: T)
  case Nil
  then show ?case by simp
next
  case (Cons j js)
  show ?case
  proof (cases "i = j")
    case True
    with Cons show ?thesis by simp
  next
    case False
    with Cons.prems(2) obtain t where
      rest: "recalculate_row bs i js (set_b2b (min i j) (max i j) t T) = Inr T'"
      by (auto simp: Let_def split: sum.splits)
    have "min i j < max i j" using False by (simp add: min_def max_def)
    then have "b2b_invariant n (set_b2b (min i j) (max i j) t T)"
      using Cons.prems(1) by (rule b2b_invariant_update)
    then show ?thesis using rest by (rule Cons.IH)
  qed
qed

lemma recalculate_collision_invariant:
  "b2b_invariant n (b2b_table st) \<Longrightarrow> recalculate_collision ids st = Inr st' \<Longrightarrow>
   b2b_invariant n (b2b_table st')"
proof (induction ids arbitrary: st)
  case Nil
  then show ?case by simp
next
  case (Cons i ids)
  from Cons.prems(2) obtain t T where
    row: "recalculate_row (balls st) i [0 ..< num_balls st] (b2b_table st) = Inr T" and
    rest: "recalculate_collision ids (st\<lparr>b2w_table := (b2w_table st)[i := t], b2b_table := T\<rparr>)
             = Inr st'"
    by (auto split: if_splits sum.splits)
  have "b2b_invariant n T"
    using Cons.prems(1) row by (rule recalculate_row_invariant)
  then show ?case
    using Cons.IH [OF _ rest] by simp
qed

lemma np_full2_invariant: "b2b_invariant n (np_full2 n)"
  by (auto simp: b2b_invariant_def square_table_def upper_triangular_def np_full2_def)

lemma length_concat_square:
  "\<forall>row \<in> set T. length row = n \<Longrightarrow> length (concat T) = length T * n"
  by (induction T) simp_all

lemma nth_concat_square:
  "\<forall>row \<in> set T. length row = n \<Longrightarrow> k < length T * n \<Longrightarrow>
   concat T ! k = T ! (k div n) ! (k mod n)"
proof (induction T arbitrary: k)
  case Nil
  then show ?case by simp
next
  case (Cons r T)
  then have n: "0 < n" by (cases n) simp_all
  show ?case
  proof (cases "k < n")
    case True
    with Cons.prems show ?thesis by (simp add: nth_append)
  next
    case False
    then have d: "k div n = Suc ((k - n) div n)" and m: "k mod n = (k - n) mod n"
      using n by (simp_all add: le_div_geq le_mod_geq)
    have "k - n < length T * n" using Cons.prems False by simp
    then have "concat T ! (k - n) = T ! ((k - n) div n) ! ((k - n) mod n)"
      using Cons.prems by (intro Cons.IH) simp
    with False Cons.prems show ?thesis
      by (simp add: nth_append d m)
  qed
qed

lemma argmin_cell:
  assumes inv: "b2b_invariant n T" and ex: "\<exists>x \<in> set (concat T). x \<noteq> PInf"
  shows "\<exists>k. np_argmin (concat T) = Inr k \<and> k div n < k mod n \<and> k mod n < n \<and>
             T ! (k div n) ! (k mod n) \<noteq> PInf"
proof -
  from inv have len: "length T = n" and rows: "\<forall>row \<in> set T. length row = n"
    and up: "upper_triangular T"
    by (simp_all add: b2b_invariant_def square_table_def)
  from np_argmin_not_PInf [OF ex] obtain k where
    k: "np_argmin (concat T) = Inr k" "k < length (concat T)" "concat T ! k \<noteq> PInf"
    by blast
  from k(2) have kn: "k < n * n"
    by (simp add: length_concat_square [OF rows] len)
  then have n: "0 < n" by (cases n) simp_all
  have cell: "concat T ! k = T ! (k div n) ! (k mod n)"
    using rows kn by (intro nth_concat_square) (simp_all add: len)
  have i: "k div n < n" using kn n by (simp add: less_mult_imp_div_less)
  have j: "k mod n < n" using n by simp
  have "length (T ! (k div n)) = n" using rows i len by simp
  with up i j len have "k mod n \<le> k div n \<Longrightarrow> T ! (k div n) ! (k mod n) = PInf"
    by (simp add: upper_triangular_def)
  with cell k(3) have "k div n < k mod n" by force
  with k(1) j cell k(3) show ?thesis by auto
qed

text \<open>
  Claim C10. The pairwise table stays upper-triangular: every cell \<open>[i][j]\<close> with
  \<open>i \<ge> j\<close> holds \<open>+inf\<close> after construction and after every \<open>init_table\<close>,
  \<open>update_table\<close> and \<open>recalculate_collision\<close>; so, unless every entry is \<open>+inf\<close>, the
  argmin over the whole matrix selects a cell with \<open>i < j\<close>, and a ball collision returned
  by \<open>next_collision\<close> names two indices \<open>i < j\<close>.
\<close>

theorem b2b_table_upper_triangular:
  "b2b_invariant (length bs) (b2b_table (new_app R bs)) \<and>
   (b2b_invariant n (b2b_table st) \<and> init_table st = Inr st' \<longrightarrow>
      b2b_invariant n (b2b_table st')) \<and>
   (b2b_invariant n (b2b_table st) \<longrightarrow> b2b_invariant n (b2b_table (update_table dt st))) \<and>
   (b2b_invariant n (b2b_table st) \<and> recalculate_collision ids st = Inr st' \<longrightarrow>
      b2b_invariant n (b2b_table st')) \<and>
   (b2b_invariant n T \<and> (\<exists>x \<in> set (concat T). x \<noteq> PInf) \<longrightarrow>
      (\<exists>k. np_argmin (concat T) = Inr k \<and> k div n < k mod n \<and> k mod n < n \<and>
           T ! (k div n) ! (k mod n) \<noteq> PInf)) \<and>
   (b2b_invariant n (b2b_table st) \<and> (\<exists>x \<in> set (concat (b2b_table st)). x \<noteq> PInf) \<and>
      next_collision st = Inr ([i, j], t) \<longrightarrow> i < j \<and> j < n)"
proof (intro conjI impI)
  show "b2b_invariant (length bs) (b2b_table (new_app R bs))"
    by (simp add: new_app_def np_full2_invariant)
next
  assume "b2b_invariant n (b2b_table st) \<and> init_table st = Inr st'"
  then show "b2b_invariant n (b2b_table st')"
    unfolding init_table_def by (blast intro: init_table_loop_invariant)
next
  assume "b2b_invariant n (b2b_table st)"
  then show "b2b_invariant n (b2b_table (update_table dt st))"
    by (rule update_table_invariant)
next
  assume "b2b_invariant n (b2b_table st) \<and> recalculate_collision ids st = Inr st'"
  then show "b2b_invariant n (b2b_table st')"
    by (blast intro: recalculate_collision_invariant)
next
  assume "b2b_invariant n T \<and> (\<exists>x \<in> set (concat T). x \<noteq> PInf)"
  then show "\<exists>k. np_argmin (concat T) = Inr k \<and> k div n < k mod n \<and> k mod n < n \<and>
           T ! (k div n) ! (k mod n) \<noteq> PInf"
    by (blast intro: argmin_cell)
next
  assume h: "b2b_invariant n (b2b_table st) \<and>
      (\<exists>x \<in> set (concat (b2b_table st)). x \<noteq> PInf) \<and>
      next_collision st = Inr ([i, j], t)"
  then obtain k where k: "np_argmin (concat (b2b_table st)) = Inr k"
    "k div n < k mod n" "k mod n < n"
    using argmin_cell [of n "b2b_table st"] by blast
  from h have len: "length (b2b_table st) = n"
    by (simp add: b2b_invariant_def square_table_def)
  from h have "next_collision st = Inr ([i, j], t)" by simp
  then have "i = k div n \<and> j = k mod n"
    unfolding next_collision_def Let_def k len
    by (auto split: sum.splits if_splits)
  with k show "i < j" "j < n" by simp_all
qed

theorem b2b_table_upper_triangular_witness:
  "b2b_invariant 2 (b2b_table head_on_app) \<and>
   init_table head_on_app = Inr head_on_app_1 \<and>
   b2b_invariant 2 (b2b_table head_on_app_1) \<and>
   b2b_invariant 2 (b2b_table (update_table (Fin 2) head_on_app_1)) \<and>
   recalculate_collision [0, 1] head_on_app_1 = Inr head_on_app_1 \<and>
   Fin 2 \<in> set (concat (b2b_table head_on_app_1)) \<and>
   (\<exists>k. np_argmin (concat (b2b_table head_on_app_1)) = Inr k \<and> k div 2 < k mod 2) \<and>
   next_collision head_on_app_1 = Inr ([0, 1], Fin 2) \<and> (0::nat) < 1 \<and> (1::nat) < 2"
proof -
  have a: "b2b_invariant 2 (b2b_table head_on_app)"
    using b2b_table_upper_triangular [where bs = "[head_on_ball_1, head_on_ball_2]"
        and R = "Fin 10"]
    by (simp add: head_on_app_def numeral_2_eq_2)
  have b: "b2b_invariant 2 (b2b_table head_on_app_1)"
    using b2b_table_upper_triangular [where n = 2 and st = head_on_app
        and st' = head_on_app_1] a head_on_init_table
    by blast
  have c: "b2b_invariant 2 (b2b_table (update_table (Fin 2) head_on_app_1))"
    using b2b_table_upper_triangular [where n = 2 and st = head_on_app_1 and dt = "Fin 2"] b
    by blast
  have m: "Fin 2 \<in> set (concat (b2b_table head_on_app_1))"
    by (simp add: head_on_app_1_def)
  then have e: "\<exists>x \<in> set (concat (b2b_table head_on_app_1)). x \<noteq> PInf"
    by (rule rev_bexI) simp
  have d: "\<exists>k. np_argmin (concat (b2b_table head_on_app_1)) = Inr k \<and> k div 2 < k mod 2"
    using b2b_table_upper_triangular [where n = 2 and T = "b2b_table head_on_app_1"] b e
    by blast
  show ?thesis
    using a b c d m head_on_init_table head_on_recalculate head_on_next_collision
    by simp
qed

lemma fl_le_refl: "x \<noteq> NaN \<Longrightarrow> x \<le> (x::fl)"
  by (cases x) simp_all

lemma fl_le_trans: "x \<le> y \<Longrightarrow> y \<le> z \<Longrightarrow> x \<le> (z::fl)"
  by (cases x; cases y; cases z) simp_all

lemma fl_le_total: "x \<noteq> NaN \<Longrightarrow> y \<noteq> NaN \<Longrightarrow> x \<le> y \<or> y \<le> (x::fl)"
  by (cases x; cases y) auto

lemma fl_le_antisym: "x \<le> y \<Longrightarrow> y \<le> x \<Longrightarrow> x = (y::fl)"
  by (cases x; cases y) simp_all

lemma fl_less_irrefl: "\<not> x < (x::fl)"
  by (cases x) simp_all

lemma fl_le_not_NaN: "x \<le> (y::fl) \<Longrightarrow> x \<noteq> NaN \<and> y \<noteq> NaN"
  by (cases x; cases y) simp_all

lemma argmin_scan_least:
  assumes "bi < length pre" "k = length pre" "bv = pre ! bi"
    and "\<forall>x \<in> set pre. bv \<le> x" and "NaN \<notin> set xs"
  shows "\<forall>x \<in> set (pre @ xs). (pre @ xs) ! argmin_scan bi bv k xs \<le> x"
  using assms
proof (induction xs arbitrary: bi bv k pre)
  case Nil
  then show ?case by (simp add: nth_append)
next
  case (Cons x xs)
  from Cons.prems have "bv \<le> bv" by (metis nth_mem)
  then have nn: "bv \<noteq> NaN" by (simp add: fl_le_not_NaN)
  from Cons.prems have xn: "x \<noteq> NaN" by auto
  show ?case
  proof (cases "bv \<le> x")
    case True
    have "\<forall>y \<in> set ((pre @ [x]) @ xs).
            ((pre @ [x]) @ xs) ! argmin_scan bi bv (Suc k) xs \<le> y"
      using Cons.prems True by (intro Cons.IH) (auto simp: nth_append)
    with True nn show ?thesis by simp
  next
    case False
    then have xb: "x \<le> bv" using fl_le_total [OF nn xn] by blast
    have "\<forall>y \<in> set ((pre @ [x]) @ xs).
            ((pre @ [x]) @ xs) ! argmin_scan k x (Suc k) xs \<le> y"
    proof (intro Cons.IH)
      show "\<forall>y \<in> set (pre @ [x]). x \<le> y"
        using Cons.prems(4) xb xn by (auto intro: fl_le_trans fl_le_refl)
    qed (use Cons.prems in \<open>auto simp: nth_append\<close>)
    with False nn show ?thesis by simp
  qed
qed

text \<open>On a list whose least entry is \<open>m\<close>, \<open>np.argmin\<close> returns an index of \<open>m\<close>.\<close>

lemma np_argmin_least:
  assumes "m \<in> set xs" and "\<forall>x \<in> set xs. m \<le> x"
  shows "\<exists>k. np_argmin xs = Inr k \<and> k < length xs \<and> xs ! k = m"
proof (cases xs)
  case Nil
  with assms show ?thesis by simp
next
  case (Cons x ys)
  have nan: "NaN \<notin> set xs"
    using assms(2) fl_le_not_NaN by blast
  then have "x \<noteq> NaN" using Cons by auto
  then have "x \<le> x" by (rule fl_le_refl)
  then have "\<forall>y \<in> set ([x] @ ys). ([x] @ ys) ! argmin_scan 0 x 1 ys \<le> y"
    using nan Cons by (intro argmin_scan_least) auto
  then have least: "\<forall>y \<in> set xs. xs ! argmin_scan 0 x 1 ys \<le> y"
    using Cons by simp
  have bound: "argmin_scan 0 x 1 ys < length xs"
    using argmin_scan_bound [of 0 1 x ys] Cons by simp
  then have "xs ! argmin_scan 0 x 1 ys \<in> set xs" by simp
  with assms least have "xs ! argmin_scan 0 x 1 ys = m"
    by (intro fl_le_antisym) auto
  with bound Cons show ?thesis by (simp add: np_argmin_def)
qed

text \<open>
  Claim C2, as amended. When the least entry of the wall table equals the least entry of
  the pairwise table, \<open>next_collision\<close> returns the ball event: the two indices of the
  argmin cell of the pairwise table, with that time. The wall event is returned only when
  its time is strictly smaller. The claim as stated (the wall event wins the tie) fails:
  see the counterexample below.
\<close>

theorem next_collision_tie:
  assumes "square_table n (b2b_table st)"
    and "m \<in> set (b2w_table st)" and "\<forall>x \<in> set (b2w_table st). m \<le> x"
    and "m \<in> set (concat (b2b_table st))" and "\<forall>x \<in> set (concat (b2b_table st)). m \<le> x"
  shows "\<exists>i j. next_collision st = Inr ([i, j], m) \<and> i < n \<and> j < n \<and>
               b2b_table st ! i ! j = m"
proof -
  from assms(1) have len: "length (b2b_table st) = n"
    and rows: "\<forall>row \<in> set (b2b_table st). length row = n"
    by (simp_all add: square_table_def)
  obtain w where w: "np_argmin (b2w_table st) = Inr w" "b2w_table st ! w = m"
    using np_argmin_least [OF assms(2,3)] by blast
  obtain k where k: "np_argmin (concat (b2b_table st)) = Inr k"
    "k < length (concat (b2b_table st))" "concat (b2b_table st) ! k = m"
    using np_argmin_least [OF assms(4,5)] by blast
  from k(2) have kn: "k < n * n"
    by (simp add: length_concat_square [OF rows] len)
  then have n: "0 < n" by (cases n) simp_all
  have cell: "b2b_table st ! (k div n) ! (k mod n) = m"
    using nth_concat_square [OF rows, of k] kn k(3) by (simp add: len)
  have i: "k div n < n" using kn n by (simp add: less_mult_imp_div_less)
  have j: "k mod n < n" using n by simp
  have "next_collision st = Inr ([k div n, k mod n], m)"
    by (simp add: next_collision_def w k(1) len Let_def cell fl_less_irrefl)
  with i j cell show ?thesis by blast
qed

theorem next_collision_tie_witness:
  "square_table 3 (b2b_table tie_app_1) \<and>
   b2w_table tie_app_1 = [Fin 12, Fin 12, Fin 2] \<and>
   concat (b2b_table tie_app_1) =
     [PInf, Fin 2, PInf, PInf, PInf, PInf, PInf, PInf, PInf] \<and>
   (\<exists>i j. next_collision tie_app_1 = Inr ([i, j], Fin 2) \<and> i < 3 \<and> j < 3 \<and>
          b2b_table tie_app_1 ! i ! j = Fin 2)"
proof -
  have h: "square_table 3 (b2b_table tie_app_1)"
    "Fin 2 \<in> set (b2w_table tie_app_1)" "\<forall>x \<in> set (b2w_table tie_app_1). Fin 2 \<le> x"
    "Fin 2 \<in> set (concat (b2b_table tie_app_1))"
    "\<forall>x \<in> set (concat (b2b_table tie_app_1)). Fin 2 \<le> x"
    by (simp_all add: tie_app_1_def square_table_def)
  have "b2w_table tie_app_1 = [Fin 12, Fin 12, Fin 2]"
    "concat (b2b_table tie_app_1) = [PInf, Fin 2, PInf, PInf, PInf, PInf, PInf, PInf, PInf]"
    by (simp_all add: tie_app_1_def)
  with next_collision_tie [OF h] h(1) show ?thesis by blast
qed

theorem next_collision_tie_counterexample:
  "init_table tie_app = Inr tie_app_1 \<and>
   b2w_table tie_app_1 = [Fin 12, Fin 12, Fin 2] \<and>
   b2b_table tie_app_1 = [[PInf, Fin 2, PInf], [PInf, PInf, PInf], [PInf, PInf, PInf]] \<and>
   next_collision tie_app_1 = Inr ([0, 1], Fin 2)"
  by (simp add: tie_init_table)
     (simp add: tie_app_1_def next_collision_def np_argmin_def Let_def)

subsection \<open>A stalled run\<close>

lemma argmin_scan_all_PInf:
  "\<forall>x \<in> set xs. x = PInf \<Longrightarrow> argmin_scan bi PInf k xs = bi"
  by (induction xs arbitrary: k) simp_all

lemma np_argmin_all_PInf:
  "xs \<noteq> [] \<Longrightarrow> \<forall>x \<in> set xs. x = PInf \<Longrightarrow> np_argmin xs = Inr 0"
  by (cases xs) (simp_all add: np_argmin_def argmin_scan_all_PInf)

lemma next_collision_all_PInf:
  assumes sq: "square_table n (b2b_table st)" and n: "0 < n"
    and w: "b2w_table st \<noteq> []" "\<forall>x \<in> set (b2w_table st). x = PInf"
    and b: "\<forall>x \<in> set (concat (b2b_table st)). x = PInf"
  shows "next_collision st = Inr ([0, 0], PInf)"
proof -
  from sq have len: "length (b2b_table st) = n"
    and rows: "\<forall>row \<in> set (b2b_table st). length row = n"
    by (simp_all add: square_table_def)
  have lc: "length (concat (b2b_table st)) = n * n"
    by (simp add: length_concat_square [OF rows] len)
  have "0 < length (concat (b2b_table st))" unfolding lc using n by simp
  then have ne: "concat (b2b_table st) \<noteq> []" by (metis length_greater_0_conv)
  have "concat (b2b_table st) ! 0 = b2b_table st ! (0 div n) ! (0 mod n)"
    using rows n by (intro nth_concat_square) (simp_all add: len)
  moreover have "concat (b2b_table st) ! 0 \<in> set (concat (b2b_table st))"
    using ne by (metis length_greater_0_conv nth_mem)
  ultimately have cell: "b2b_table st ! 0 ! 0 = PInf"
    using b n by (metis div_0 mod_0)
  have "b2w_table st ! 0 \<in> set (b2w_table st)"
    using w(1) by (metis length_greater_0_conv nth_mem)
  then have w0: "b2w_table st ! 0 = PInf" using w(2) by blast
  show ?thesis
    by (simp add: next_collision_def np_argmin_all_PInf [OF w] np_argmin_all_PInf [OF ne b]
        Let_def cell w0)
qed

lemma not_fin_times_PInf: "\<not> is_fin (v * PInf)"
  by (cases v) simp_all

lemma not_fin_plus: "\<not> is_fin y \<Longrightarrow> \<not> is_fin (x + y)"
  by (cases x; cases y) simp_all

lemma minus_self_not_fin: "\<not> is_fin z \<Longrightarrow> z - z = NaN"
  by (cases z) (simp_all add: minus_fl_def)

lemma plus_NaN [simp]: "x + NaN = NaN"
  by (cases x) simp_all

lemma minus_NaN [simp]: "x - NaN = NaN"
  by (simp add: minus_fl_def)

lemma times_NaN [simp]: "x * NaN = NaN"
  by (cases x) simp_all

lemma divide_NaN [simp]: "x / NaN = NaN"
  by (cases x) simp_all

text \<open>After an advance by an infinite time the position of a ball has no finite
  component, so the difference of the position with itself is NaN.\<close>

lemma advance_PInf_position:
  "vsub (position (update_position PInf b)) (position (update_position PInf b)) = (NaN, NaN)"
proof -
  obtain p0 p1 where p: "position b = (p0, p1)" by (cases "position b")
  obtain v0 v1 where v: "velocity b = (v0, v1)" by (cases "velocity b")
  have "\<not> is_fin (p0 + v0 * PInf)" "\<not> is_fin (p1 + v1 * PInf)"
    by (simp_all add: not_fin_plus not_fin_times_PInf)
  then show ?thesis
    by (simp add: update_position_def Let_def p v minus_self_not_fin)
qed

lemma stalled_rebound:
  "velocity_after_ball_collision (update_position PInf b) (update_position PInf b)
     = ((NaN, NaN), (NaN, NaN))"
proof -
  obtain u0 u1 where u: "velocity (update_position PInf b) = (u0, u1)"
    by (cases "velocity (update_position PInf b)")
  show ?thesis
    unfolding velocity_after_ball_collision_def Let_def advance_PInf_position u
    by simp
qed

lemma np_roots_NaN: "np_roots NaN NaN c = Inl LinAlgError"
  by (simp add: np_roots_def nonzero_def np_divide_def)

lemma next_wall_collision_NaN:
  "velocity b = (NaN, NaN) \<Longrightarrow> next_wall_collision b R = Inl LinAlgError"
  by (cases "position b")
     (simp add: next_wall_collision_def Let_def predict_collision_time_def np_roots_NaN)

lemma ball_collision_stalled:
  assumes "balls st \<noteq> []"
  shows "ball_collision 0 0 (st\<lparr>balls := map (update_position PInf) (balls st)\<rparr>)
           = Inl LinAlgError"
proof -
  obtain b bs where bs: "balls st = b # bs" using assms by (cases "balls st") auto
  show ?thesis
    by (simp add: ball_collision_def num_balls_def bs stalled_rebound update_velocity_def
        next_wall_collision_NaN)
qed

lemma collide_stalled:
  assumes "balls st \<noteq> []"
  shows "collide ([0, 0], PInf) st = Inl LinAlgError"
proof -
  have b: "balls (update_table PInf st) = balls st"
    by (simp add: update_table_def Let_def)
  have "ball_collision 0 0
          ((update_table PInf st)\<lparr>balls := map (update_position PInf)
             (balls (update_table PInf st))\<rparr>) = Inl LinAlgError"
    by (rule ball_collision_stalled) (simp add: b assms)
  then show ?thesis
    by (simp add: collide_def Let_def)
qed

text \<open>
  Claim C1, as amended. When every entry of both tables is \<open>+inf\<close>, the engine makes no
  stall check: \<open>next_collision\<close> returns the ball event \<open>[0, 0]\<close> with the time \<open>+inf\<close>,
  \<open>collide\<close> is run with it, advances tables and positions by the infinite time, and ends
  in the \<open>LinAlgError\<close> that \<open>np.roots\<close> raises on the resulting non-finite coefficients.
  The run ends with that error, never with an explicit stalled-simulation error. The claim
  as stated fails: see the counterexample below.
\<close>

theorem stalled_run_not_reported:
  assumes "balls st \<noteq> []" and "length (b2w_table st) = num_balls st"
    and "square_table (num_balls st) (b2b_table st)"
    and "\<forall>x \<in> set (b2w_table st). x = PInf"
    and "\<forall>x \<in> set (concat (b2b_table st)). x = PInf"
  shows "next_collision st = Inr ([0, 0], PInf) \<and>
         collide ([0, 0], PInf) st = Inl LinAlgError \<and>
         render (Suc num_frames) st = Inl LinAlgError \<and>
         render (Suc num_frames) st \<noteq> Inl StalledSimulationError"
proof -
  from assms(1) have n: "0 < num_balls st" by (simp add: num_balls_def)
  with assms(2) have w: "b2w_table st \<noteq> []" by auto
  have nc: "next_collision st = Inr ([0, 0], PInf)"
    using assms(3) n w assms(4,5) by (rule next_collision_all_PInf)
  have c: "collide ([0, 0], PInf) st = Inl LinAlgError"
    using assms(1) by (rule collide_stalled)
  show ?thesis by (simp add: nc c)
qed

lemma still_init_table: "init_table still_app = Inr still_app"
  by (simp add: init_table_def still_app_def new_app_def num_balls_def
      still_ball_1_def still_ball_2_def next_wall_collision_def next_ball_collision_def
      minus_fl_def predict_collision_time_constant
      np_full1_def np_full2_def set_b2b_def upt_rec numeral_2_eq_2)

lemma still_update_state: "update_state (Fin 0) still_app = Inr still_app"
  by (simp add: update_state_def still_app_def new_app_def num_balls_def Let_def
      still_ball_1_def still_ball_2_def kinetic_energy_def speed_squared_def)

lemma still_next_collision: "next_collision still_app = Inr ([0, 0], PInf)"
  by (simp add: next_collision_def still_app_def new_app_def np_argmin_def Let_def
      np_full1_def np_full2_def numeral_2_eq_2)

theorem stalled_run_not_reported_witness:
  "balls still_app \<noteq> [] \<and> length (b2w_table still_app) = num_balls still_app \<and>
   square_table (num_balls still_app) (b2b_table still_app) \<and>
   b2w_table still_app = [PInf, PInf] \<and>
   concat (b2b_table still_app) = [PInf, PInf, PInf, PInf] \<and>
   next_collision still_app = Inr ([0, 0], PInf) \<and>
   collide ([0, 0], PInf) still_app = Inl LinAlgError \<and>
   render (Suc 0) still_app = Inl LinAlgError"
proof -
  have t: "b2w_table still_app = [PInf, PInf]"
    "concat (b2b_table still_app) = [PInf, PInf, PInf, PInf]"
    by (simp_all add: still_app_def new_app_def np_full1_def np_full2_def numeral_2_eq_2)
  have h: "balls still_app \<noteq> []" "length (b2w_table still_app) = num_balls still_app"
    "square_table (num_balls still_app) (b2b_table still_app)"
    "\<forall>x \<in> set (b2w_table still_app). x = PInf"
    "\<forall>x \<in> set (concat (b2b_table still_app)). x = PInf"
    unfolding t
    by (simp_all add: still_app_def new_app_def num_balls_def square_table_def
        np_full1_def np_full2_def)
  from stalled_run_not_reported [OF h, of 0] h(1,2,3) t show ?thesis by simp
qed

theorem stalled_run_counterexample:
  "init_table (new_app (Fin 10) [still_ball_1, still_ball_2]) = Inr still_app \<and>
   next_collision still_app = Inr ([0, 0], PInf) \<and>
   App_init (Fin 10) 1 [still_ball_1, still_ball_2] = Inl LinAlgError"
proof -
  have i: "init_table (new_app (Fin 10) [still_ball_1, still_ball_2]) = Inr still_app"
    using still_init_table by (simp add: still_app_def)
  have "balls still_app \<noteq> []" by (simp add: still_app_def new_app_def)
  then have "collide ([0, 0], PInf) still_app = Inl LinAlgError"
    by (rule collide_stalled)
  then have "render 1 still_app = Inl LinAlgError"
    by (simp add: still_next_collision)
  then show ?thesis
    by (simp add: App_init_def i still_update_state still_next_collision)
qed

subsection \<open>Containment\<close>

lemma recalculate_collision_balls:
  "recalculate_collision ids st = Inr st' \<Longrightarrow> balls st' = balls st"
proof (induction ids arbitrary: st)
  case Nil
  then show ?case by simp
next
  case (Cons i ids)
  from Cons.prems obtain t T where
    "recalculate_collision ids (st\<lparr>b2w_table := (b2w_table st)[i := t], b2b_table := T\<rparr>)
       = Inr st'"
    by (auto split: if_splits sum.splits)
  from Cons.IH [OF this] show ?case by simp
qed

lemma wall_collision_geometry:
  assumes "wall_collision w st = Inr st'"
  shows "length (balls st') = length (balls st)"
    and "position (balls st' ! k) = position (balls st ! k)"
    and "radius (balls st' ! k) = radius (balls st ! k)"
proof -
  from assms have w: "w < length (balls st)"
    by (auto simp: wall_collision_def num_balls_def split: if_splits)
  define v where "v = velocity_after_wall_collision (balls st ! w)"
  define st1 where "st1 = st\<lparr>balls := (balls st)[w := update_velocity v (balls st ! w)],
      delta_p := delta_p st + la_norm (scalev (mass (balls st ! w))
        (vsub v (velocity (balls st ! w))))\<rparr>"
  from assms w obtain st2 where r: "recalculate_collision [w] st1 = Inr st2"
    and st': "st' = st2\<lparr>balls := (balls st2)[w :=
                (balls st2 ! w)\<lparr>wall_collisions := wall_collisions (balls st2 ! w) + 1\<rparr>],
              total_wall_collisions := total_wall_collisions st2 + 1\<rparr>"
    by (auto simp: wall_collision_def num_balls_def Let_def st1_def v_def split: sum.splits)
  have b2: "balls st2 = (balls st)[w := update_velocity v (balls st ! w)]"
    using recalculate_collision_balls [OF r] by (simp add: st1_def)
  show "length (balls st') = length (balls st)"
    by (simp add: st' b2)
  show "position (balls st' ! k) = position (balls st ! k)"
    using w by (cases "k = w") (simp_all add: st' b2 update_velocity_def)
  show "radius (balls st' ! k) = radius (balls st ! k)"
    using w by (cases "k = w") (simp_all add: st' b2 update_velocity_def)
qed

lemma ball_collision_geometry:
  assumes "ball_collision i j st = Inr st'"
  shows "length (balls st') = length (balls st)"
    and "position (balls st' ! k) = position (balls st ! k)"
    and "radius (balls st' ! k) = radius (balls st ! k)"
proof -
  from assms have ij: "i < length (balls st)" "j < length (balls st)"
    by (auto simp: ball_collision_def num_balls_def split: if_splits)
  obtain v1 v2 where v: "velocity_after_ball_collision (balls st ! i) (balls st ! j) = (v1, v2)"
    by (cases "velocity_after_ball_collision (balls st ! i) (balls st ! j)")
  define bs1 where "bs1 = (balls st)[i := update_velocity v1 (balls st ! i)]"
  define bs2 where "bs2 = bs1[j := update_velocity v2 (bs1 ! j)]"
  from assms ij obtain st2 where r: "recalculate_collision [i, j] (st\<lparr>balls := bs2\<rparr>) = Inr st2"
    and st': "st' = st2\<lparr>balls :=
        ((balls st2)[i := (balls st2 ! i)\<lparr>ball_collisions :=
                        ball_collisions (balls st2 ! i) + 1\<rparr>])
          [j := (((balls st2)[i := (balls st2 ! i)\<lparr>ball_collisions :=
                        ball_collisions (balls st2 ! i) + 1\<rparr>]) ! j)
                 \<lparr>ball_collisions := ball_collisions
                    (((balls st2)[i := (balls st2 ! i)\<lparr>ball_collisions :=
                        ball_collisions (balls st2 ! i) + 1\<rparr>]) ! j) + 1\<rparr>],
        total_ball_collisions := total_ball_collisions st2 + 1\<rparr>"
    by (auto simp: ball_collision_def num_balls_def Let_def v bs1_def bs2_def
        split: sum.splits)
  have b2: "balls st2 = bs2"
    using recalculate_collision_balls [OF r] by simp
  have len: "length bs1 = length (balls st)" "length bs2 = length (balls st)"
    by (simp_all add: bs1_def bs2_def)
  have p1: "position (bs1 ! k) = position (balls st ! k) \<and> radius (bs1 ! k) = radius (balls st ! k)"
    for k
    using ij by (cases "k = i") (simp_all add: bs1_def update_velocity_def)
  have p2: "position (bs2 ! k) = position (balls st ! k) \<and> radius (bs2 ! k) = radius (balls st ! k)"
    for k
    using ij len p1 by (cases "k = j") (simp_all add: bs2_def update_velocity_def)
  define bs3 where "bs3 = bs2[i := (bs2 ! i)\<lparr>ball_collisions := ball_collisions (bs2 ! i) + 1\<rparr>]"
  have p3: "position (bs3 ! k) = position (balls st ! k) \<and> radius (bs3 ! k) = radius (balls st ! k)"
    for k
    using ij len p2 by (cases "k = i") (simp_all add: bs3_def)
  have b': "balls st' = bs3[j := (bs3 ! j)\<lparr>ball_collisions := ball_collisions (bs3 ! j) + 1\<rparr>]"
    by (simp add: st' b2 bs3_def)
  show "length (balls st') = length (balls st)"
    by (simp add: b' bs3_def len)
  have "position (balls st' ! k) = position (balls st ! k) \<and>
        radius (balls st' ! k) = radius (balls st ! k)"
    using ij len p3 by (cases "k = j") (simp_all add: b' bs3_def)
  then show "position (balls st' ! k) = position (balls st ! k)"
    and "radius (balls st' ! k) = radius (balls st ! k)"
    by simp_all
qed

lemma update_state_balls:
  "update_state dt st = Inr st' \<Longrightarrow> balls st' = balls st"
  by (auto simp: update_state_def Let_def split: if_splits)

text \<open>A completed \<open>collide\<close> leaves every ball where \<open>update_position\<close> has put it.\<close>

lemma collide_geometry:
  assumes c: "collide (ids, dt) st = Inr st'" and k: "k < length (balls st)"
  shows "position (balls st' ! k) = position (update_position dt (balls st ! k))"
    and "radius (balls st' ! k) = radius (balls st ! k)"
proof -
  define st2 where
    "st2 = (update_table dt st)\<lparr>balls := map (update_position dt) (balls (update_table dt st))\<rparr>"
  have b2: "balls st2 = map (update_position dt) (balls st)"
    by (simp add: st2_def update_table_def Let_def)
  from c obtain st3 where
    s3: "(case ids of [b2w] \<Rightarrow> wall_collision b2w st2
            | [b_i, b_j] \<Rightarrow> ball_collision b_i b_j st2
            | _ \<Rightarrow> Inl ValueError) = Inr st3"
    and u: "update_state dt st3 = Inr st'"
    unfolding st2_def by (auto simp: collide_def Let_def split: sum.splits)
  have g: "position (balls st3 ! k) = position (balls st2 ! k) \<and>
           radius (balls st3 ! k) = radius (balls st2 ! k)"
  proof (cases ids)
    case Nil
    with s3 show ?thesis by simp
  next
    case (Cons i js)
    show ?thesis
    proof (cases js)
      case Nil
      with s3 Cons have "wall_collision i st2 = Inr st3" by simp
      then show ?thesis by (simp add: wall_collision_geometry)
    next
      case c2: (Cons j ks)
      show ?thesis
      proof (cases ks)
        case Nil
        with s3 Cons c2 have "ball_collision i j st2 = Inr st3" by simp
        then show ?thesis by (simp add: ball_collision_geometry)
      next
        case (Cons a list)
        with s3 \<open>ids = i # js\<close> c2 show ?thesis by simp
      qed
    qed
  qed
  have b': "balls st' = balls st3" using u by (rule update_state_balls)
  show "position (balls st' ! k) = position (update_position dt (balls st ! k))"
    using g k by (simp add: b' b2)
  show "radius (balls st' ! k) = radius (balls st ! k)"
    using g k by (simp add: b' b2 update_position_def Let_def)
qed

lemma np_argmin_le:
  assumes "NaN \<notin> set xs" and "xs \<noteq> []"
  shows "\<exists>k. np_argmin xs = Inr k \<and> k < length xs \<and> (\<forall>x \<in> set xs. xs ! k \<le> x)"
proof -
  obtain x ys where xs: "xs = x # ys" using assms(2) by (cases xs) auto
  from assms(1) xs have "x \<noteq> NaN" by auto
  then have "x \<le> x" by (rule fl_le_refl)
  then have "\<forall>y \<in> set ([x] @ ys). ([x] @ ys) ! argmin_scan 0 x 1 ys \<le> y"
    using assms(1) xs by (intro argmin_scan_least) auto
  moreover have "argmin_scan 0 x 1 ys < length xs"
    using argmin_scan_bound [of 0 1 x ys] xs by simp
  ultimately show ?thesis using xs by (simp add: np_argmin_def)
qed

lemma fl_not_less_le: "w \<noteq> NaN \<Longrightarrow> \<not> w < Fin d \<Longrightarrow> Fin d \<le> w"
  by (cases w) auto

text \<open>The event time is at most every entry of the wall table.\<close>

lemma next_collision_le_wall:
  assumes nan: "NaN \<notin> set (b2w_table st)" and k: "k < length (b2w_table st)"
    and nc: "next_collision st = Inr (ids, Fin dt)"
  shows "Fin dt \<le> b2w_table st ! k"
proof -
  from k have ne: "b2w_table st \<noteq> []" by auto
  from np_argmin_le [OF nan ne] obtain w where
    w: "np_argmin (b2w_table st) = Inr w" "w < length (b2w_table st)"
    "\<forall>x \<in> set (b2w_table st). b2w_table st ! w \<le> x"
    by blast
  from w(2) nan have wn: "b2w_table st ! w \<noteq> NaN" by (metis nth_mem)
  from w(3) k have le: "b2w_table st ! w \<le> b2w_table st ! k" by simp
  from nc obtain j where j: "np_argmin (concat (b2b_table st)) = Inr j"
    by (auto simp: next_collision_def w(1) Let_def split: sum.splits)
  define bt where "bt = b2b_table st ! (j div length (b2b_table st)) ! (j mod length (b2b_table st))"
  have "Fin dt \<le> b2w_table st ! w"
  proof (cases "b2w_table st ! w < bt")
    case True
    with nc have "b2w_table st ! w = Fin dt"
      by (simp add: next_collision_def w(1) j Let_def bt_def)
    then show ?thesis by simp
  next
    case False
    with nc have "bt = Fin dt"
      by (simp add: next_collision_def w(1) j Let_def bt_def)
    with False wn show ?thesis by (simp add: fl_not_less_le)
  qed
  then show ?thesis using le by (rule fl_le_trans)
qed

lemma predict_collision_time_is_root:
  assumes "predict_collision_time (Fin a) (Fin b) (Fin c) = Inr (Fin h)"
  shows "a * h * h + b * h + c = 0" and "time_floor < h"
proof -
  have no: "\<not> coefficients_overflow a b c"
  proof
    assume "coefficients_overflow a b c"
    then have "predict_collision_time (Fin a) (Fin b) (Fin c) = Inl LinAlgError"
      by (rule predict_collision_time_overflow)
    with assms show False by simp
  qed
  have nz: "a \<noteq> 0 \<or> b \<noteq> 0 \<or> c \<noteq> 0"
  proof (rule ccontr)
    assume "\<not> (a \<noteq> 0 \<or> b \<noteq> 0 \<or> c \<noteq> 0)"
    then have "predict_collision_time (Fin a) (Fin b) (Fin c) = Inr PInf"
      by (simp add: predict_collision_time_constant)
    with assms show False by simp
  qed
  let ?S = "{t \<in> real_roots a b c. time_floor < t}"
  obtain rs where rs: "Re ` {t \<in> set rs. Im t = 0} = real_roots a b c"
    using np_roots_finite [OF no] nz by blast
  have "finite (Re ` {t \<in> set rs. Im t = 0})" by simp
  then have fin: "finite ?S" unfolding rs by simp
  from assms have ne: "?S \<noteq> {}" and h: "h = Min ?S"
    unfolding predict_collision_time_least_root [OF no nz] by (simp_all split: if_splits)
  from Min_in [OF fin ne] h have "h \<in> ?S" by simp
  then show "a * h * h + b * h + c = 0" and "time_floor < h"
    by (simp_all add: real_roots_def)
qed

lemma quadratic_convex:
  fixes a b c h t :: real
  assumes a: "0 \<le> a" and c: "c \<le> 0" and root: "a * h * h + b * h + c = 0"
    and t: "0 \<le> t" "t \<le> h" and h: "0 < h"
  shows "a * t * t + b * t + c \<le> 0"
proof -
  have "h * (a * t * t + b * t + c) = t * (a * h * h + b * h + c) + (h - t) * (c - a * t * h)"
    by (simp add: algebra_simps)
  then have e: "h * (a * t * t + b * t + c) = (h - t) * (c - a * t * h)"
    by (simp add: root)
  have "0 \<le> a * t * h" using a t h by simp
  then have n: "c - a * t * h \<le> 0" using c by simp
  have p: "0 \<le> h - t" using t by simp
  have "(h - t) * (c - a * t * h) \<le> 0"
    using p n by (rule mult_nonneg_nonpos)
  then have "h * (a * t * t + b * t + c) \<le> 0" by (simp only: e)
  then show ?thesis using h by (simp add: mult_le_0_iff)
qed

lemma contained_iff:
  assumes "position b = (Fin x, Fin y)" and "radius b = Fin r"
  shows "contained (Fin R) b \<longleftrightarrow> sqrt (x * x + y * y) + r \<le> R"
proof -
  have "\<not> x * x + y * y < 0" by (simp add: not_less)
  then show ?thesis by (simp add: contained_def la_norm_def assms)
qed

lemma predicted_time_stays_inside:
  assumes fp: "finite_vec (position b)" and fv: "finite_vec (velocity b)"
    and fr: "is_fin (radius b)" and fR: "is_fin R"
    and inside: "contained R b"
    and pred: "next_wall_collision b R = Inr (Fin h)"
  shows "stays_inside R b h"
proof -
  obtain x y vx vy r R0 where
    p: "position b = (Fin x, Fin y)" and v: "velocity b = (Fin vx, Fin vy)"
    and r: "radius b = Fin r" and R: "R = Fin R0"
    using fp fv fr fR by (metis finite_vecE is_finE)
  define a where "a = vx * vx + vy * vy"
  define bq where "bq = 2 * (x * vx + y * vy)"
  define c where "c = x * x + y * y - (R0 - r) * (R0 - r)"
  have "next_wall_collision b R = predict_collision_time (Fin a) (Fin bq) (Fin c)"
    by (simp add: next_wall_collision_def Let_def p v r R minus_fl_def a_def bq_def c_def)
  with pred have pr: "predict_collision_time (Fin a) (Fin bq) (Fin c) = Inr (Fin h)"
    by simp
  have root: "a * h * h + bq * h + c = 0" and hf: "time_floor < h"
    using predict_collision_time_is_root [OF pr] by simp_all
  have h: "0 < h" using hf by (simp add: time_floor_def) 
  have a: "0 \<le> a" by (simp add: a_def)
  from inside have norm: "sqrt (x * x + y * y) + r \<le> R0"
    unfolding R by (simp add: contained_iff [OF p r])
  have gap: "0 \<le> R0 - r"
  proof -
    have "0 \<le> sqrt (x * x + y * y)" by simp
    with norm show ?thesis by linarith
  qed
  have c: "c \<le> 0"
  proof -
    have "sqrt (x * x + y * y) \<le> R0 - r" using norm by simp
    then have "sqrt (x * x + y * y) * sqrt (x * x + y * y) \<le> (R0 - r) * (R0 - r)"
      using gap by (intro mult_mono) simp_all
    then show ?thesis by (simp add: c_def)
  qed
  show ?thesis
    unfolding stays_inside_def
  proof (intro allI impI)
    fix t :: real
    assume t: "0 \<le> t \<and> t \<le> h"
    have q: "a * t * t + bq * t + c \<le> 0"
      using a c root _ _ h by (rule quadratic_convex) (use t in simp_all)
    define X where "X = x + vx * t"
    define Y where "Y = y + vy * t"
    have "X * X + Y * Y = (a * t * t + bq * t + c) + (R0 - r) * (R0 - r)"
      by (simp add: X_def Y_def a_def bq_def c_def algebra_simps)
    with q have "X * X + Y * Y \<le> (R0 - r) * (R0 - r)" by simp
    then have "sqrt (X * X + Y * Y) \<le> sqrt ((R0 - r) * (R0 - r))"
      by (rule real_sqrt_le_mono)
    also have "\<dots> = R0 - r" using gap by simp
    finally have n: "sqrt (X * X + Y * Y) + r \<le> R0" by simp
    have p': "position (update_position (Fin t) b) = (Fin X, Fin Y)"
      by (simp add: update_position_def Let_def p v X_def Y_def)
    have r': "radius (update_position (Fin t) b) = Fin r"
      by (simp add: update_position_def Let_def r)
    show "contained R (update_position (Fin t) b)"
      unfolding R using n by (simp add: contained_iff [OF p' r'])
  qed
qed




subsection \<open>The invariant of the event loop\<close>

lemma np_amin_mem: "ts \<noteq> [] \<Longrightarrow> np_amin ts \<in> set ts"
  using Min_in [of "set ts"] by (simp add: np_amin_Min)

text \<open>A predicted time is \<open>+inf\<close> or a finite time above the floor.\<close>

lemma predict_collision_time_result:
  assumes "predict_collision_time a b c = Inr e"
  shows "e = PInf \<or> (\<exists>t. e = Fin t \<and> time_floor < t)"
proof -
  from assms obtain rs where rs: "np_roots a b c = Inr rs"
    by (auto simp: predict_collision_time_def split: sum.splits)
  define ts where "ts = map Re (filter (\<lambda>t. Im t = 0 \<and> time_floor < Re t) rs)"
  have e: "e = (if ts = [] then PInf else Fin (np_amin ts))"
    using assms by (auto simp: predict_collision_time_def rs ts_def Let_def)
  show ?thesis
  proof (cases "ts = []")
    case True
    with e show ?thesis by simp
  next
    case False
    then have "np_amin ts \<in> set ts" by (rule np_amin_mem)
    then have "time_floor < np_amin ts" by (auto simp: ts_def)
    with e False show ?thesis by simp
  qed
qed

lemma predict_collision_time_nonneg:
  "predict_collision_time a b c = Inr e \<Longrightarrow> Fin 0 \<le> e"
  using predict_collision_time_result [of a b c e]
  by (auto simp: time_floor_def)

text \<open>With a non-finite leading coefficient and a non-finite linear coefficient, the
  companion matrix has a NaN entry.\<close>

lemma np_roots_not_finite:
  assumes "a = PInf \<or> a = NaN" and "\<not> is_fin b"
  shows "np_roots a b c = Inl LinAlgError"
proof -
  have "(- b) / a = NaN"
    using assms by (cases b) auto
  then have q: "np_divide (- b) a = NaN"
    by (simp add: np_divide_not_finite)
  have "nonzero a" using assms(1) by (auto simp: nonzero_def)
  moreover have "nonzero b" using assms(2) by (cases b) (auto simp: nonzero_def)
  ultimately show ?thesis by (simp add: np_roots_def q)
qed

lemma square_sum_not_finite:
  assumes "\<not> is_fin v0 \<or> \<not> is_fin v1"
  shows "v0 * v0 + v1 * v1 = PInf \<or> v0 * v0 + v1 * v1 = NaN"
  using assms by (cases v0; cases v1) auto

lemma mixed_sum_not_finite:
  assumes "\<not> is_fin v0 \<or> \<not> is_fin v1"
  shows "\<not> is_fin (Fin 2 * (Fin x0 * v0 + Fin x1 * v1))"
  using assms by (cases v0; cases v1) auto

text \<open>If the wall time of a ball at a finite position can be computed, the velocity of
  the ball is finite.\<close>

lemma next_wall_collision_finite_velocity:
  assumes "next_wall_collision b R = Inr e" and "finite_vec (position b)"
  shows "finite_vec (velocity b)"
proof (rule ccontr)
  assume nf: "\<not> finite_vec (velocity b)"
  obtain x0 x1 where p: "position b = (Fin x0, Fin x1)"
    using assms(2) by (rule finite_vecE)
  obtain v0 v1 where v: "velocity b = (v0, v1)" by (cases "velocity b")
  from nf v have n: "\<not> is_fin v0 \<or> \<not> is_fin v1" by (simp add: finite_vec_def)
  have "np_roots (v0 * v0 + v1 * v1) (Fin 2 * (Fin x0 * v0 + Fin x1 * v1))
          (np_dot (position b) (position b) - (R - radius b) * (R - radius b))
        = Inl LinAlgError"
    using square_sum_not_finite [OF n] mixed_sum_not_finite [OF n]
    by (rule np_roots_not_finite)
  then have "next_wall_collision b R = Inl LinAlgError"
    by (simp add: next_wall_collision_def Let_def p v predict_collision_time_def)
  with assms(1) show False by simp
qed

lemma next_wall_collision_cong:
  "position b = position b' \<Longrightarrow> velocity b = velocity b' \<Longrightarrow> radius b = radius b' \<Longrightarrow>
   next_wall_collision b R = next_wall_collision b' R"
  by (simp add: next_wall_collision_def)

subsubsection \<open>The effect of \<open>recalculate_collision\<close>\<close>

lemma recalculate_collision_effect:
  assumes "recalculate_collision ids st = Inr st'"
    and "length (b2w_table st) = num_balls st"
  shows "container_radius st' = container_radius st \<and>
         length (b2w_table st') = length (b2w_table st) \<and>
         (\<forall>k. k \<notin> set ids \<longrightarrow> b2w_table st' ! k = b2w_table st ! k) \<and>
         (\<forall>k. k \<in> set ids \<longrightarrow>
           next_wall_collision (balls st ! k) (container_radius st) = Inr (b2w_table st' ! k))"
  using assms
proof (induction ids arbitrary: st)
  case Nil
  then show ?case by simp
next
  case (Cons i ids)
  from Cons.prems(1) obtain t T where i: "i < num_balls st"
    and t: "next_wall_collision (balls st ! i) (container_radius st) = Inr t"
    and rest: "recalculate_collision ids
         (st\<lparr>b2w_table := (b2w_table st)[i := t], b2b_table := T\<rparr>) = Inr st'"
    by (auto split: if_splits sum.splits)
  let ?st1 = "st\<lparr>b2w_table := (b2w_table st)[i := t], b2b_table := T\<rparr>"
  have len1: "length (b2w_table ?st1) = num_balls ?st1"
    using Cons.prems(2) by (simp add: num_balls_def)
  from Cons.IH [OF rest len1] have
    ih1: "container_radius st' = container_radius st" and
    ih2: "length (b2w_table st') = length (b2w_table st)" and
    ih3: "\<And>k. k \<notin> set ids \<Longrightarrow> b2w_table st' ! k = (b2w_table st)[i := t] ! k" and
    ih4: "\<And>k. k \<in> set ids \<Longrightarrow>
           next_wall_collision (balls st ! k) (container_radius st) = Inr (b2w_table st' ! k)"
    by simp_all
  have a: "b2w_table st' ! k = b2w_table st ! k" if "k \<notin> set (i # ids)" for k
    using ih3 [of k] that by simp
  have b: "next_wall_collision (balls st ! k) (container_radius st) = Inr (b2w_table st' ! k)"
    if "k \<in> set (i # ids)" for k
  proof (cases "k \<in> set ids")
    case True
    then show ?thesis by (rule ih4)
  next
    case False
    with that have ki: "k = i" by simp
    have "b2w_table st' ! i = t"
      using ih3 [of i] False ki i Cons.prems(2) by simp
    with t ki show ?thesis by simp
  qed
  show ?case using ih1 ih2 a b by blast
qed
subsubsection \<open>Entries of the pairwise table\<close>

lemma set_concat_list_update:
  "set (concat (T[i := r])) \<subseteq> set r \<union> set (concat T)"
proof -
  have "set (T[i := r]) \<subseteq> insert r (set T)" by (rule set_update_subset_insert)
  then show ?thesis by auto
qed

lemma set_concat_set_b2b:
  "set (concat (set_b2b i j v T)) \<subseteq> insert v (set (concat T))"
proof (cases "i < length T")
  case True
  have "set ((T ! i)[j := v]) \<subseteq> insert v (set (T ! i))"
    by (rule set_update_subset_insert)
  moreover have "T ! i \<in> set T" using True by (rule nth_mem)
  then have "set (T ! i) \<subseteq> set (concat T)" by auto
  ultimately show ?thesis
    unfolding set_b2b_def using set_concat_list_update [of T i "(T ! i)[j := v]"] by blast
next
  case False
  then show ?thesis by (auto simp: set_b2b_def list_update_beyond)
qed

lemma recalculate_row_nonneg:
  "\<forall>x \<in> set (concat T). Fin 0 \<le> x \<Longrightarrow> recalculate_row bs i js T = Inr T' \<Longrightarrow>
   \<forall>x \<in> set (concat T'). Fin 0 \<le> x"
proof (induction js arbitrary: T)
  case Nil
  then show ?case by simp
next
  case (Cons j js)
  show ?case
  proof (cases "i = j")
    case True
    with Cons show ?thesis by simp
  next
    case False
    with Cons.prems(2) obtain t where
      t: "next_ball_collision (bs ! i) (bs ! j) = Inr t" and
      rest: "recalculate_row bs i js (set_b2b (min i j) (max i j) t T) = Inr T'"
      by (auto simp: Let_def split: sum.splits)
    from t have "Fin 0 \<le> t"
      by (auto simp: next_ball_collision_def Let_def intro: predict_collision_time_nonneg)
    then have "\<forall>x \<in> set (concat (set_b2b (min i j) (max i j) t T)). Fin 0 \<le> x"
      using Cons.prems(1) set_concat_set_b2b [of "min i j" "max i j" t T] by auto
    then show ?thesis using rest by (rule Cons.IH)
  qed
qed

lemma recalculate_collision_nonneg:
  "\<forall>x \<in> set (concat (b2b_table st)). Fin 0 \<le> x \<Longrightarrow>
   recalculate_collision ids st = Inr st' \<Longrightarrow>
   \<forall>x \<in> set (concat (b2b_table st')). Fin 0 \<le> x"
proof (induction ids arbitrary: st)
  case Nil
  then show ?case by simp
next
  case (Cons i ids)
  from Cons.prems(2) obtain t T where
    row: "recalculate_row (balls st) i [0 ..< num_balls st] (b2b_table st) = Inr T" and
    rest: "recalculate_collision ids (st\<lparr>b2w_table := (b2w_table st)[i := t], b2b_table := T\<rparr>)
             = Inr st'"
    by (auto split: if_splits sum.splits)
  have "\<forall>x \<in> set (concat T). Fin 0 \<le> x"
    using Cons.prems(1) row by (rule recalculate_row_nonneg)
  then have "\<forall>x \<in> set (concat (b2b_table
      (st\<lparr>b2w_table := (b2w_table st)[i := t], b2b_table := T\<rparr>))). Fin 0 \<le> x"
    by simp
  then show ?case
    using rest by (rule Cons.IH)
qed

text \<open>\<open>update_table\<close> on the pairwise table, cell by cell.\<close>

lemma fold_row_nth:
  "distinct js \<Longrightarrow> \<forall>j \<in> set js. j < length r \<Longrightarrow>
   length (fold (\<lambda>j r. r[j := r ! j - dt]) js r) = length r \<and>
   (\<forall>m < length r. fold (\<lambda>j r. r[j := r ! j - dt]) js r ! m =
      (if m \<in> set js then r ! m - dt else r ! m))"
proof (induction js arbitrary: r)
  case Nil
  then show ?case by simp
next
  case (Cons j js)
  let ?r = "r[j := r ! j - dt]"
  have "length (fold (\<lambda>j r. r[j := r ! j - dt]) js ?r) = length ?r \<and>
   (\<forall>m < length ?r. fold (\<lambda>j r. r[j := r ! j - dt]) js ?r ! m =
      (if m \<in> set js then ?r ! m - dt else ?r ! m))"
    using Cons.prems by (intro Cons.IH) simp_all
  with Cons.prems show ?case
    by (auto simp: nth_list_update)
qed

lemma fold_set_b2b_row:
  "fold (\<lambda>j T. set_b2b i j (T ! i ! j - dt) T) js T =
   T[i := fold (\<lambda>j r. r[j := r ! j - dt]) js (T ! i)]"
proof (induction js arbitrary: T)
  case Nil
  then show ?case by simp
next
  case (Cons j js)
  let ?T = "set_b2b i j (T ! i ! j - dt) T"
  have "fold (\<lambda>j T. set_b2b i j (T ! i ! j - dt) T) (j # js) T =
        fold (\<lambda>j T. set_b2b i j (T ! i ! j - dt) T) js ?T"
    by simp
  also have "\<dots> = ?T[i := fold (\<lambda>j r. r[j := r ! j - dt]) js (?T ! i)]"
    by (rule Cons.IH)
  also have "\<dots> = T[i := fold (\<lambda>j r. r[j := r ! j - dt]) (j # js) (T ! i)]"
  proof (cases "i < length T")
    case True
    then show ?thesis by (simp add: set_b2b_def)
  next
    case False
    then show ?thesis by (simp add: set_b2b_def list_update_beyond)
  qed
  finally show ?case .
qed

lemma fold_rows_nth:
  "distinct is \<Longrightarrow>
   length (fold (\<lambda>i T. T[i := g i (T ! i)]) is T) = length T \<and>
   (\<forall>m < length T. fold (\<lambda>i T. T[i := g i (T ! i)]) is T ! m =
      (if m \<in> set is then g m (T ! m) else T ! m))"
proof (induction "is" arbitrary: T)
  case Nil
  then show ?case by simp
next
  case (Cons i "is")
  let ?T = "T[i := g i (T ! i)]"
  have ih: "length (fold (\<lambda>i T. T[i := g i (T ! i)]) is ?T) = length ?T \<and>
   (\<forall>m < length ?T. fold (\<lambda>i T. T[i := g i (T ! i)]) is ?T ! m =
      (if m \<in> set is then g m (?T ! m) else ?T ! m))"
    using Cons.prems by (intro Cons.IH) simp
  have "fold (\<lambda>i T. T[i := g i (T ! i)]) (i # is) T ! m =
      (if m \<in> set (i # is) then g m (T ! m) else T ! m)" if m: "m < length T" for m
  proof (cases "m = i")
    case True
    with Cons.prems have "m \<notin> set is" by simp
    with ih m True show ?thesis by simp
  next
    case False
    with ih m show ?thesis by simp
  qed
  with ih show ?case by simp
qed


lemma update_table_b2b:
  assumes sq: "square_table n (b2b_table st)" and i: "i < n" and j: "j < n"
  shows "b2b_table (update_table dt st) ! i ! j =
           (if i < j then b2b_table st ! i ! j - dt else b2b_table st ! i ! j)"
proof -
  define T where "T = b2b_table st"
  from sq have len: "length T = n" and rows: "\<forall>row \<in> set T. length row = n"
    by (simp_all add: square_table_def T_def)
  have li: "length (T ! i) = n" using rows i len by simp
  define g where "g = (\<lambda>i r. fold (\<lambda>j r. r[j := r ! j - dt]) [i + 1 ..< n] r)"
  have f: "(\<lambda>i T. fold (\<lambda>j T. set_b2b i j (T ! i ! j - dt) T) [i + 1 ..< n] T) =
        (\<lambda>i T. T[i := g i (T ! i)])"
    by (intro ext) (simp only: fold_set_b2b_row g_def)
  have "b2b_table (update_table dt st) =
        fold (\<lambda>i T. fold (\<lambda>j T. set_b2b i j (T ! i ! j - dt) T) [i + 1 ..< n] T) [0 ..< n] T"
    unfolding update_table_def Let_def T_def [symmetric] len by simp
  then have "b2b_table (update_table dt st) = fold (\<lambda>i T. T[i := g i (T ! i)]) [0 ..< n] T"
    by (simp only: f)
  moreover have "fold (\<lambda>i T. T[i := g i (T ! i)]) [0 ..< n] T ! i = g i (T ! i)"
    using fold_rows_nth [of "[0 ..< n]" g T] i len by simp
  ultimately have "b2b_table (update_table dt st) ! i = g i (T ! i)"
    by simp
  moreover have "g i (T ! i) ! j = (if j \<in> set [i + 1 ..< n] then T ! i ! j - dt else T ! i ! j)"
    unfolding g_def using fold_row_nth [of "[i + 1 ..< n]" "T ! i" dt] li j by simp
  ultimately show ?thesis using j by (auto simp: T_def)
qed

lemma concat_square_entries:
  assumes "square_table n T"
  shows "set (concat T) = {T ! i ! j | i j. i < n \<and> j < n}"
proof -
  from assms have len: "length T = n" and rows: "\<forall>row \<in> set T. length row = n"
    by (simp_all add: square_table_def)
  have "set (concat T) = (\<Union>row \<in> set T. set row)" by simp
  also have "\<dots> = (\<Union>i \<in> {..<n}. set (T ! i))"
    unfolding set_conv_nth [of T] len by auto
  also have "\<dots> = {T ! i ! j | i j. i < n \<and> j < n}"
  proof -
    have "set (T ! i) = {T ! i ! j | j. j < n}" if "i < n" for i
    proof -
      have "length (T ! i) = n" using rows that len by simp
      then show ?thesis unfolding set_conv_nth [of "T ! i"] by simp
    qed
    then show ?thesis by auto
  qed
  finally show ?thesis .
qed

lemma fl_minus_nonneg: "Fin d \<le> y \<Longrightarrow> Fin 0 \<le> y - Fin d"
  by (cases y) (simp_all add: minus_fl_def)

lemma update_row_square:
  "square_table n T \<Longrightarrow>
   square_table n (fold (\<lambda>j T. set_b2b i j (T ! i ! j - dt) T) js T)"
  by (induction js arbitrary: T) (simp_all add: square_table_update)

lemma update_rows_square:
  "square_table n T \<Longrightarrow>
   square_table n
     (fold (\<lambda>i T. fold (\<lambda>j T. set_b2b i j (T ! i ! j - dt) T) [i + 1 ..< l] T) is T)"
proof (induction "is" arbitrary: T)
  case Nil
  then show ?case by simp
next
  case (Cons i "is")
  have "square_table n (fold (\<lambda>j T. set_b2b i j (T ! i ! j - dt) T) [i + 1 ..< l] T)"
    using Cons.prems by (rule update_row_square)
  then show ?case
    using Cons.IH by simp
qed

lemma update_table_square:
  "square_table n (b2b_table st) \<Longrightarrow> square_table n (b2b_table (update_table dt st))"
  using update_rows_square [of n "b2b_table st" dt "length (b2b_table st)"
      "[0 ..< length (b2b_table st)]"]
  by (simp add: update_table_def Let_def)

lemma update_table_nonneg:
  assumes sq: "square_table n (b2b_table st)"
    and nn: "\<forall>x \<in> set (concat (b2b_table st)). Fin 0 \<le> x"
    and le: "\<forall>x \<in> set (concat (b2b_table st)). Fin d \<le> x"
  shows "\<forall>x \<in> set (concat (b2b_table (update_table (Fin d) st))). Fin 0 \<le> x"
proof
  fix x
  assume "x \<in> set (concat (b2b_table (update_table (Fin d) st)))"
  then obtain i j where ij: "i < n" "j < n"
    and x: "x = b2b_table (update_table (Fin d) st) ! i ! j"
    unfolding concat_square_entries [OF update_table_square [OF sq]] by blast
  have "b2b_table st ! i ! j \<in> set (concat (b2b_table st))"
    unfolding concat_square_entries [OF sq] using ij by blast
  with nn le have "Fin 0 \<le> b2b_table st ! i ! j" "Fin d \<le> b2b_table st ! i ! j"
    by blast+
  then show "Fin 0 \<le> x"
    unfolding x update_table_b2b [OF sq ij] by (simp add: fl_minus_nonneg)
qed

lemma recalculate_row_square:
  "square_table n T \<Longrightarrow> recalculate_row bs i js T = Inr T' \<Longrightarrow> square_table n T'"
proof (induction js arbitrary: T)
  case Nil
  then show ?case by simp
next
  case (Cons j js)
  show ?case
  proof (cases "i = j")
    case True
    with Cons show ?thesis by simp
  next
    case False
    with Cons.prems(2) obtain t where
      rest: "recalculate_row bs i js (set_b2b (min i j) (max i j) t T) = Inr T'"
      by (auto simp: Let_def split: sum.splits)
    have "square_table n (set_b2b (min i j) (max i j) t T)"
      using Cons.prems(1) by (rule square_table_update)
    then show ?thesis using rest by (rule Cons.IH)
  qed
qed

lemma recalculate_collision_square:
  "square_table n (b2b_table st) \<Longrightarrow> recalculate_collision ids st = Inr st' \<Longrightarrow>
   square_table n (b2b_table st')"
proof (induction ids arbitrary: st)
  case Nil
  then show ?case by simp
next
  case (Cons i ids)
  from Cons.prems(2) obtain t T where
    row: "recalculate_row (balls st) i [0 ..< num_balls st] (b2b_table st) = Inr T" and
    rest: "recalculate_collision ids (st\<lparr>b2w_table := (b2w_table st)[i := t], b2b_table := T\<rparr>)
             = Inr st'"
    by (auto split: if_splits sum.splits)
  have "square_table n T"
    using Cons.prems(1) row by (rule recalculate_row_square)
  then have "square_table n (b2b_table
      (st\<lparr>b2w_table := (b2w_table st)[i := t], b2b_table := T\<rparr>))"
    by simp
  then show ?case
    using rest by (rule Cons.IH)
qed

subsubsection \<open>The effect of a collision\<close>

lemma wall_collision_effect:
  assumes w: "wall_collision w st = Inr st'"
    and len: "length (b2w_table st) = num_balls st"
  shows "container_radius st' = container_radius st \<and>
         length (b2w_table st') = length (b2w_table st) \<and>
         w < num_balls st \<and>
         (\<forall>k. k \<noteq> w \<longrightarrow> velocity (balls st' ! k) = velocity (balls st ! k) \<and>
                        b2w_table st' ! k = b2w_table st ! k) \<and>
         next_wall_collision (balls st' ! w) (container_radius st) = Inr (b2w_table st' ! w) \<and>
         (\<forall>n. square_table n (b2b_table st) \<longrightarrow> square_table n (b2b_table st')) \<and>
         ((\<forall>x \<in> set (concat (b2b_table st)). Fin 0 \<le> x) \<longrightarrow>
            (\<forall>x \<in> set (concat (b2b_table st')). Fin 0 \<le> x))"
proof -
  from w have wl: "w < length (balls st)"
    by (auto simp: wall_collision_def num_balls_def split: if_splits)
  define v where "v = velocity_after_wall_collision (balls st ! w)"
  define st1 where "st1 = st\<lparr>balls := (balls st)[w := update_velocity v (balls st ! w)],
      delta_p := delta_p st + la_norm (scalev (mass (balls st ! w))
        (vsub v (velocity (balls st ! w))))\<rparr>"
  from w wl obtain st2 where r: "recalculate_collision [w] st1 = Inr st2"
    and st': "st' = st2\<lparr>balls := (balls st2)[w :=
                (balls st2 ! w)\<lparr>wall_collisions := wall_collisions (balls st2 ! w) + 1\<rparr>],
              total_wall_collisions := total_wall_collisions st2 + 1\<rparr>"
    by (auto simp: wall_collision_def num_balls_def Let_def st1_def v_def split: sum.splits)
  have len1: "length (b2w_table st1) = num_balls st1"
    using len by (simp add: st1_def num_balls_def)
  have b2: "balls st2 = (balls st)[w := update_velocity v (balls st ! w)]"
    using recalculate_collision_balls [OF r] by (simp add: st1_def)
  from recalculate_collision_effect [OF r len1] have
    e1: "container_radius st2 = container_radius st" and
    e2: "length (b2w_table st2) = length (b2w_table st)" and
    e3: "\<And>k. k \<noteq> w \<Longrightarrow> b2w_table st2 ! k = b2w_table st ! k" and
    e4: "next_wall_collision (balls st1 ! w) (container_radius st) = Inr (b2w_table st2 ! w)"
    by (simp_all add: st1_def)
  have "next_wall_collision (balls st' ! w) (container_radius st) =
        next_wall_collision (balls st1 ! w) (container_radius st)"
    using wl by (intro next_wall_collision_cong) (simp_all add: st' b2 st1_def)
  with e4 have nw: "next_wall_collision (balls st' ! w) (container_radius st)
      = Inr (b2w_table st' ! w)"
    by (simp add: st')
  have vel: "velocity (balls st' ! k) = velocity (balls st ! k)" if "k \<noteq> w" for k
    using that by (simp add: st' b2)
  have sq: "square_table n (b2b_table st')" if "square_table n (b2b_table st)" for n
  proof -
    from that have "square_table n (b2b_table st1)" by (simp add: st1_def)
    from recalculate_collision_square [OF this r] show ?thesis by (simp add: st')
  qed
  have nn: "\<forall>x \<in> set (concat (b2b_table st')). Fin 0 \<le> x"
    if "\<forall>x \<in> set (concat (b2b_table st)). Fin 0 \<le> x"
  proof -
    from that have "\<forall>x \<in> set (concat (b2b_table st1)). Fin 0 \<le> x" by (simp add: st1_def)
    from recalculate_collision_nonneg [OF this r] show ?thesis by (simp add: st')
  qed
  have "container_radius st' = container_radius st" by (simp add: st' e1)
  moreover have "length (b2w_table st') = length (b2w_table st)" by (simp add: st' e2)
  moreover have "w < num_balls st" using wl by (simp add: num_balls_def)
  moreover have "\<And>k. k \<noteq> w \<Longrightarrow> b2w_table st' ! k = b2w_table st ! k"
    using e3 by (simp add: st')
  ultimately show ?thesis using vel nw sq nn by blast
qed

lemma ball_collision_effect:
  assumes c: "ball_collision i j st = Inr st'"
    and len: "length (b2w_table st) = num_balls st"
  shows "container_radius st' = container_radius st \<and>
         length (b2w_table st') = length (b2w_table st) \<and>
         i < num_balls st \<and> j < num_balls st \<and>
         (\<forall>k. k \<noteq> i \<and> k \<noteq> j \<longrightarrow> velocity (balls st' ! k) = velocity (balls st ! k) \<and>
                        b2w_table st' ! k = b2w_table st ! k) \<and>
         (\<forall>k. k = i \<or> k = j \<longrightarrow>
            next_wall_collision (balls st' ! k) (container_radius st)
              = Inr (b2w_table st' ! k)) \<and>
         (\<forall>n. square_table n (b2b_table st) \<longrightarrow> square_table n (b2b_table st')) \<and>
         ((\<forall>x \<in> set (concat (b2b_table st)). Fin 0 \<le> x) \<longrightarrow>
            (\<forall>x \<in> set (concat (b2b_table st')). Fin 0 \<le> x))"
proof -
  from c have ij: "i < length (balls st)" "j < length (balls st)"
    by (auto simp: ball_collision_def num_balls_def split: if_splits)
  obtain v1 v2 where v: "velocity_after_ball_collision (balls st ! i) (balls st ! j) = (v1, v2)"
    by (cases "velocity_after_ball_collision (balls st ! i) (balls st ! j)")
  define bs1 where "bs1 = (balls st)[i := update_velocity v1 (balls st ! i)]"
  define bs2 where "bs2 = bs1[j := update_velocity v2 (bs1 ! j)]"
  define st1 where "st1 = st\<lparr>balls := bs2\<rparr>"
  define bump where "bump = (\<lambda>b :: ball. b\<lparr>ball_collisions := ball_collisions b + 1\<rparr>)"
  from c ij obtain st2 where r: "recalculate_collision [i, j] st1 = Inr st2"
    and st': "st' = st2\<lparr>balls :=
        ((balls st2)[i := bump (balls st2 ! i)])
          [j := bump (((balls st2)[i := bump (balls st2 ! i)]) ! j)],
        total_ball_collisions := total_ball_collisions st2 + 1\<rparr>"
    by (auto simp: ball_collision_def num_balls_def Let_def v bs1_def bs2_def st1_def bump_def
        split: sum.splits)
  have lb: "length bs1 = length (balls st)" "length bs2 = length (balls st)"
    by (simp_all add: bs1_def bs2_def)
  have len1: "length (b2w_table st1) = num_balls st1"
    using len by (simp add: st1_def num_balls_def lb)
  have b2: "balls st2 = bs2"
    using recalculate_collision_balls [OF r] by (simp add: st1_def)
  from recalculate_collision_effect [OF r len1] have
    e1: "container_radius st2 = container_radius st" and
    e2: "length (b2w_table st2) = length (b2w_table st)" and
    e3: "\<And>k. k \<noteq> i \<and> k \<noteq> j \<Longrightarrow> b2w_table st2 ! k = b2w_table st ! k" and
    e4: "\<And>k. k = i \<or> k = j \<Longrightarrow>
           next_wall_collision (bs2 ! k) (container_radius st) = Inr (b2w_table st2 ! k)"
    by (auto simp: st1_def)
  have motion: "position (balls st' ! k) = position (bs2 ! k) \<and>
                velocity (balls st' ! k) = velocity (bs2 ! k) \<and>
                radius (balls st' ! k) = radius (bs2 ! k)" for k
  proof -
    have m: "position (bump b) = position b \<and> velocity (bump b) = velocity b \<and>
             radius (bump b) = radius b" for b
      by (simp add: bump_def)
    show ?thesis
      using ij lb by (cases "k = i"; cases "k = j") (simp_all add: st' b2 m nth_list_update)
  qed
  have nw: "next_wall_collision (balls st' ! k) (container_radius st)
      = Inr (b2w_table st' ! k)" if "k = i \<or> k = j" for k
  proof -
    have "next_wall_collision (balls st' ! k) (container_radius st) =
          next_wall_collision (bs2 ! k) (container_radius st)"
      using motion [of k] by (intro next_wall_collision_cong) simp_all
    with e4 [OF that] show ?thesis by (simp add: st')
  qed
  have vel: "velocity (balls st' ! k) = velocity (balls st ! k)" if "k \<noteq> i \<and> k \<noteq> j" for k
    using that motion [of k] by (simp add: bs2_def bs1_def)
  have sq: "square_table n (b2b_table st')" if "square_table n (b2b_table st)" for n
  proof -
    from that have "square_table n (b2b_table st1)" by (simp add: st1_def)
    from recalculate_collision_square [OF this r] show ?thesis by (simp add: st')
  qed
  have nn: "\<forall>x \<in> set (concat (b2b_table st')). Fin 0 \<le> x"
    if "\<forall>x \<in> set (concat (b2b_table st)). Fin 0 \<le> x"
  proof -
    from that have "\<forall>x \<in> set (concat (b2b_table st1)). Fin 0 \<le> x" by (simp add: st1_def)
    from recalculate_collision_nonneg [OF this r] show ?thesis by (simp add: st')
  qed
  have "container_radius st' = container_radius st" by (simp add: st' e1)
  moreover have "length (b2w_table st') = length (b2w_table st)" by (simp add: st' e2)
  moreover have "i < num_balls st" "j < num_balls st" using ij by (simp_all add: num_balls_def)
  moreover have "\<And>k. k \<noteq> i \<and> k \<noteq> j \<Longrightarrow> b2w_table st' ! k = b2w_table st ! k"
    using e3 by (simp add: st')
  ultimately show ?thesis using vel nw sq nn by blast
qed

lemma update_state_effect:
  "update_state dt st = Inr st' \<Longrightarrow>
   balls st' = balls st \<and> b2w_table st' = b2w_table st \<and> b2b_table st' = b2b_table st \<and>
   container_radius st' = container_radius st"
  by (auto simp: update_state_def Let_def split: if_splits)

lemma collide_effect:
  assumes c: "collide (ids, dt) st = Inr st'" and len: "length (b2w_table st) = num_balls st"
  shows "container_radius st' = container_radius st \<and>
         num_balls st' = num_balls st \<and>
         length (b2w_table st') = length (b2w_table st) \<and>
         (\<forall>k \<in> set ids. k < num_balls st) \<and>
         (\<forall>k < num_balls st. k \<notin> set ids \<longrightarrow>
            velocity (balls st' ! k) = velocity (balls st ! k) \<and>
            b2w_table st' ! k = b2w_table st ! k - dt) \<and>
         (\<forall>k \<in> set ids.
            next_wall_collision (balls st' ! k) (container_radius st)
              = Inr (b2w_table st' ! k)) \<and>
         (\<forall>n. square_table n (b2b_table st) \<longrightarrow> square_table n (b2b_table st')) \<and>
         (\<forall>n d. square_table n (b2b_table st) \<and> dt = Fin d \<and>
            (\<forall>x \<in> set (concat (b2b_table st)). Fin 0 \<le> x) \<and>
            (\<forall>x \<in> set (concat (b2b_table st)). Fin d \<le> x) \<longrightarrow>
            (\<forall>x \<in> set (concat (b2b_table st')). Fin 0 \<le> x))"
proof -
  define st2 where
    "st2 = (update_table dt st)\<lparr>balls := map (update_position dt) (balls (update_table dt st))\<rparr>"
  have b2: "balls st2 = map (update_position dt) (balls st)"
    and w2: "b2w_table st2 = map (\<lambda>x. x - dt) (b2w_table st)"
    and r2: "container_radius st2 = container_radius st"
    and t2: "b2b_table st2 = b2b_table (update_table dt st)"
    by (simp_all add: st2_def update_table_def Let_def)
  have n2: "num_balls st2 = num_balls st" by (simp add: num_balls_def b2)
  have len2: "length (b2w_table st2) = num_balls st2" using len by (simp add: w2 n2)
  have v2: "velocity (balls st2 ! k) = velocity (balls st ! k)" if "k < num_balls st" for k
    using that by (simp add: b2 num_balls_def update_position_def Let_def)
  have e2: "b2w_table st2 ! k = b2w_table st ! k - dt" if "k < num_balls st" for k
    using that len by (simp add: w2)
  have sq2: "square_table n (b2b_table st2)" if "square_table n (b2b_table st)" for n
    using that by (simp add: t2 update_table_square)
  have nn2: "\<forall>x \<in> set (concat (b2b_table st2)). Fin 0 \<le> x"
    if "square_table n (b2b_table st)" "dt = Fin d"
      "\<forall>x \<in> set (concat (b2b_table st)). Fin 0 \<le> x"
      "\<forall>x \<in> set (concat (b2b_table st)). Fin d \<le> x" for n d
    unfolding t2 that(2) using that(1,3,4) by (rule update_table_nonneg)
  from c obtain st3 where
    s3: "(case ids of [b2w] \<Rightarrow> wall_collision b2w st2
            | [b_i, b_j] \<Rightarrow> ball_collision b_i b_j st2
            | _ \<Rightarrow> Inl ValueError) = Inr st3"
    and u: "update_state dt st3 = Inr st'"
    unfolding st2_def by (auto simp: collide_def Let_def split: sum.splits)
  note u' = update_state_effect [OF u]
  have n': "num_balls st' = num_balls st3" using u' by (simp add: num_balls_def)
  have core: "container_radius st3 = container_radius st2 \<and>
         length (b2w_table st3) = length (b2w_table st2) \<and>
         (\<forall>k \<in> set ids. k < num_balls st2) \<and>
         (\<forall>k. k \<notin> set ids \<longrightarrow> velocity (balls st3 ! k) = velocity (balls st2 ! k) \<and>
                        b2w_table st3 ! k = b2w_table st2 ! k) \<and>
         (\<forall>k \<in> set ids. next_wall_collision (balls st3 ! k) (container_radius st2)
              = Inr (b2w_table st3 ! k)) \<and>
         (\<forall>n. square_table n (b2b_table st2) \<longrightarrow> square_table n (b2b_table st3)) \<and>
         ((\<forall>x \<in> set (concat (b2b_table st2)). Fin 0 \<le> x) \<longrightarrow>
            (\<forall>x \<in> set (concat (b2b_table st3)). Fin 0 \<le> x)) \<and>
         length (balls st3) = length (balls st2)"
  proof (cases ids)
    case Nil
    with s3 show ?thesis by simp
  next
    case (Cons i js)
    show ?thesis
    proof (cases js)
      case Nil
      with s3 Cons have w: "wall_collision i st2 = Inr st3" by simp
      from wall_collision_effect [OF w len2] wall_collision_geometry(1) [OF w]
      show ?thesis unfolding Cons Nil by simp
    next
      case c2: (Cons j ks)
      show ?thesis
      proof (cases ks)
        case Nil
        with s3 Cons c2 have b: "ball_collision i j st2 = Inr st3" by simp
        from ball_collision_effect [OF b len2] ball_collision_geometry(1) [OF b]
        show ?thesis unfolding Cons c2 Nil by simp
      next
        case (Cons a list)
        with s3 \<open>ids = i # js\<close> c2 show ?thesis by simp
      qed
    qed
  qed
  have "num_balls st' = num_balls st"
    using core n' n2 by (simp add: num_balls_def)
  moreover have "container_radius st' = container_radius st"
    using core u' r2 by simp
  moreover have "length (b2w_table st') = length (b2w_table st)"
    using core u' w2 by simp
  moreover have "\<forall>k \<in> set ids. k < num_balls st"
    using core n2 by simp
  moreover have "\<forall>k < num_balls st. k \<notin> set ids \<longrightarrow>
            velocity (balls st' ! k) = velocity (balls st ! k) \<and>
            b2w_table st' ! k = b2w_table st ! k - dt"
    using core u' v2 e2 by simp
  moreover have "\<forall>k \<in> set ids.
            next_wall_collision (balls st' ! k) (container_radius st)
              = Inr (b2w_table st' ! k)"
    using core u' r2 by simp
  moreover have "\<forall>n. square_table n (b2b_table st) \<longrightarrow> square_table n (b2b_table st')"
    using core u' sq2 by simp
  moreover have "\<forall>n d. square_table n (b2b_table st) \<and> dt = Fin d \<and>
            (\<forall>x \<in> set (concat (b2b_table st)). Fin 0 \<le> x) \<and>
            (\<forall>x \<in> set (concat (b2b_table st)). Fin d \<le> x) \<longrightarrow>
            (\<forall>x \<in> set (concat (b2b_table st')). Fin 0 \<le> x)"
  proof (intro allI impI)
    fix n d
    assume h: "square_table n (b2b_table st) \<and> dt = Fin d \<and>
            (\<forall>x \<in> set (concat (b2b_table st)). Fin 0 \<le> x) \<and>
            (\<forall>x \<in> set (concat (b2b_table st)). Fin d \<le> x)"
    then have "\<forall>x \<in> set (concat (b2b_table st2)). Fin 0 \<le> x"
      using nn2 [of n d] by blast
    with core have "\<forall>x \<in> set (concat (b2b_table st3)). Fin 0 \<le> x" by blast
    with u' show "\<forall>x \<in> set (concat (b2b_table st')). Fin 0 \<le> x" by simp
  qed
  ultimately show ?thesis by blast
qed

subsubsection \<open>The event time\<close>

lemma fl_less_le: "x < y \<Longrightarrow> x \<le> (y::fl)"
  by (cases x; cases y) auto

lemma fl_not_less: "x \<noteq> NaN \<Longrightarrow> y \<noteq> NaN \<Longrightarrow> \<not> x < y \<Longrightarrow> y \<le> (x::fl)"
  by (cases x; cases y) auto

text \<open>On tables without NaN, the time of the next event is an entry of a table and is
  at most every entry of both tables.\<close>

lemma next_collision_least:
  assumes sq: "square_table n (b2b_table st)"
    and nanw: "NaN \<notin> set (b2w_table st)" and nanb: "NaN \<notin> set (concat (b2b_table st))"
    and nc: "next_collision st = Inr (ids, dt)"
  shows "(\<forall>x \<in> set (b2w_table st). dt \<le> x) \<and>
         (\<forall>x \<in> set (concat (b2b_table st)). dt \<le> x) \<and>
         (dt \<in> set (b2w_table st) \<or> dt \<in> set (concat (b2b_table st)))"
proof -
  from sq have len: "length (b2b_table st) = n"
    and rows: "\<forall>row \<in> set (b2b_table st). length row = n"
    by (simp_all add: square_table_def)
  from nc have new: "b2w_table st \<noteq> []"
    by (auto simp: next_collision_def np_argmin_def split: list.splits)
  from np_argmin_le [OF nanw new] obtain w where
    w: "np_argmin (b2w_table st) = Inr w" "w < length (b2w_table st)"
    "\<forall>x \<in> set (b2w_table st). b2w_table st ! w \<le> x"
    by blast
  have neb: "concat (b2b_table st) \<noteq> []"
  proof
    assume e: "concat (b2b_table st) = []"
    have "np_argmin (concat (b2b_table st)) = Inl ValueError"
      unfolding e by (simp add: np_argmin_def)
    then have "next_collision st = Inl ValueError"
      by (simp add: next_collision_def w(1) Let_def)
    with nc show False by simp
  qed
  from np_argmin_le [OF nanb neb] obtain j where
    j: "np_argmin (concat (b2b_table st)) = Inr j" "j < length (concat (b2b_table st))"
    "\<forall>x \<in> set (concat (b2b_table st)). concat (b2b_table st) ! j \<le> x"
    by blast
  define bw where "bw = b2w_table st ! w"
  define bt where "bt = concat (b2b_table st) ! j"
  from j(2) have jn: "j < length (b2b_table st) * n"
    by (simp add: length_concat_square [OF rows])
  have cell: "b2b_table st ! (j div n) ! (j mod n) = bt"
    using nth_concat_square [OF rows jn] by (simp add: bt_def)
  have mw: "bw \<in> set (b2w_table st)" using w(2) by (simp add: bw_def)
  have mb: "bt \<in> set (concat (b2b_table st))" unfolding bt_def using j(2) by (rule nth_mem)
  from mw nanw have bwn: "bw \<noteq> NaN" by auto
  from mb nanb have btn: "bt \<noteq> NaN" by auto
  have lw: "\<forall>x \<in> set (b2w_table st). bw \<le> x" using w(3) by (simp add: bw_def)
  have lb: "\<forall>x \<in> set (concat (b2b_table st)). bt \<le> x" using j(3) by (simp add: bt_def)
  show ?thesis
  proof (cases "bw < bt")
    case True
    with nc have dt: "dt = bw"
      by (simp add: next_collision_def w(1) j(1) Let_def len cell bw_def)
    from True have "bw \<le> bt" by (rule fl_less_le)
    with lb have "\<forall>x \<in> set (concat (b2b_table st)). bw \<le> x"
      by (blast intro: fl_le_trans)
    with lw mw show ?thesis unfolding dt by blast
  next
    case False
    with nc have dt: "dt = bt"
      by (simp add: next_collision_def w(1) j(1) Let_def len cell bw_def)
    from bwn btn False have "bt \<le> bw" by (rule fl_not_less)
    with lw have "\<forall>x \<in> set (b2w_table st). bt \<le> x"
      by (blast intro: fl_le_trans)
    with lb mb show ?thesis unfolding dt by blast
  qed
qed

subsubsection \<open>Horizons\<close>

lemma contained_cong:
  "position b = position b' \<Longrightarrow> radius b = radius b' \<Longrightarrow> contained R b = contained R b'"
  by (simp add: contained_def)

lemma update_position_at_rest:
  assumes "finite_vec (position b)" and "velocity b = (Fin 0, Fin 0)"
  shows "position (update_position (Fin d) b) = position b"
proof -
  obtain x y where "position b = (Fin x, Fin y)" using assms(1) by (rule finite_vecE)
  with assms(2) show ?thesis by (simp add: update_position_def Let_def)
qed

lemma update_position_twice:
  assumes "finite_vec (position b)" and "finite_vec (velocity b)"
    and "position b' = position (update_position (Fin d) b)"
    and "velocity b' = velocity b"
  shows "position (update_position (Fin t) b') = position (update_position (Fin (d + t)) b)"
proof -
  obtain x y where p: "position b = (Fin x, Fin y)" using assms(1) by (rule finite_vecE)
  obtain vx vy where v: "velocity b = (Fin vx, Fin vy)" using assms(2) by (rule finite_vecE)
  from assms(3) have p': "position b' = (Fin (x + vx * d), Fin (y + vy * d))"
    by (simp add: update_position_def Let_def p v)
  show ?thesis
    by (simp add: update_position_def Let_def p v p' assms(4) algebra_simps)
qed

lemma update_position_radius: "radius (update_position dt b) = radius b"
  by (simp add: update_position_def Let_def)

lemma update_position_finite:
  assumes "finite_vec (position b)" and "finite_vec (velocity b)"
  shows "finite_vec (position (update_position (Fin d) b))"
proof -
  obtain x y where p: "position b = (Fin x, Fin y)" using assms(1) by (rule finite_vecE)
  obtain vx vy where v: "velocity b = (Fin vx, Fin vy)" using assms(2) by (rule finite_vecE)
  show ?thesis by (simp add: update_position_def Let_def p v finite_vec_def)
qed

lemma stays_inside_shift:
  assumes fin: "finite_vec (position b)" "finite_vec (velocity b)"
    and inside: "stays_inside R b h" and d: "0 \<le> d" "d \<le> h"
    and p: "position b' = position (update_position (Fin d) b)"
    and v: "velocity b' = velocity b" and r: "radius b' = radius b"
  shows "stays_inside R b' (h - d)"
  unfolding stays_inside_def
proof (intro allI impI)
  fix t :: real
  assume t: "0 \<le> t \<and> t \<le> h - d"
  then have "0 \<le> d + t \<and> d + t \<le> h" using d by simp
  with inside have "contained R (update_position (Fin (d + t)) b)"
    by (simp add: stays_inside_def)
  moreover have "position (update_position (Fin t) b')
      = position (update_position (Fin (d + t)) b)"
    using fin p v by (rule update_position_twice)
  moreover have "radius (update_position (Fin t) b')
      = radius (update_position (Fin (d + t)) b)"
    by (simp add: update_position_radius r)
  ultimately show "contained R (update_position (Fin t) b')"
    by (simp add: contained_def)
qed

lemma stays_inside_now:
  assumes "finite_vec (position b)" "finite_vec (velocity b)"
    and "stays_inside R b h" and "0 \<le> d" "d \<le> h"
  shows "contained R (update_position (Fin d) b)"
  using assms by (simp add: stays_inside_def)

lemma next_wall_collision_result:
  assumes "next_wall_collision b R = Inr e"
  shows "e = PInf \<or> (\<exists>t. e = Fin t \<and> time_floor < t)"
  using assms predict_collision_time_result
  by (simp add: next_wall_collision_def Let_def)

subsubsection \<open>One event preserves the invariant\<close>

lemma wall_horizon_cases:
  assumes "wall_horizon R b e"
  obtains (finite) h where "e = Fin h" "0 \<le> h" "stays_inside R b h"
  | (rest) "e = PInf" "velocity b = (Fin 0, Fin 0)" "contained R b"
  using assms by (cases e) (auto simp: wall_horizon_def)

lemma wall_horizon_not_NaN: "wall_horizon R b e \<Longrightarrow> e \<noteq> NaN \<and> Fin 0 \<le> e"
  by (cases e) (auto simp: wall_horizon_def)

lemma engine_invariant_tables:
  assumes "engine_invariant st"
  shows "NaN \<notin> set (b2w_table st)" and "NaN \<notin> set (concat (b2b_table st))"
    and "\<forall>x \<in> set (b2w_table st). Fin 0 \<le> x"
proof -
  from assms have len: "length (b2w_table st) = num_balls st"
    and h: "\<forall>k < num_balls st. wall_horizon (container_radius st) (balls st ! k)
              (b2w_table st ! k)"
    and nn: "\<forall>x \<in> set (concat (b2b_table st)). Fin 0 \<le> x"
    by (simp_all add: engine_invariant_def)
  have e: "x \<noteq> NaN \<and> Fin 0 \<le> x" if "x \<in> set (b2w_table st)" for x
  proof -
    from that obtain k where "k < length (b2w_table st)" "x = b2w_table st ! k"
      by (auto simp: in_set_conv_nth)
    with h len show ?thesis using wall_horizon_not_NaN by metis
  qed
  from e show "NaN \<notin> set (b2w_table st)" by blast
  from e show "\<forall>x \<in> set (b2w_table st). Fin 0 \<le> x" by blast
  from nn show "NaN \<notin> set (concat (b2b_table st))"
    using fl_le_not_NaN by blast
qed

lemma engine_invariant_step:
  assumes inv: "engine_invariant st" and step: "event_step st st'"
  shows "engine_invariant st'"
proof -
  define R where "R = container_radius st"
  define n where "n = num_balls st"
  from inv have fR: "is_fin R" and len: "length (b2w_table st) = n"
    and sq: "square_table n (b2b_table st)"
    and nn: "\<forall>x \<in> set (concat (b2b_table st)). Fin 0 \<le> x"
    and fb: "\<And>k. k < n \<Longrightarrow> finite_ball (balls st ! k)"
    and hz: "\<And>k. k < n \<Longrightarrow> wall_horizon R (balls st ! k) (b2w_table st ! k)"
    by (simp_all add: engine_invariant_def R_def n_def)
  note tabs = engine_invariant_tables [OF inv]
  from step obtain ids dt where nc: "next_collision st = Inr (ids, dt)"
    and c: "collide (ids, dt) st = Inr st'"
    and nd: "\<And>k. k \<in> set ids \<Longrightarrow> \<not> floor_discarded st' k"
    by (auto simp: event_step_def list_all_iff split: sum.splits)
  from next_collision_least [OF sq tabs(1,2) nc] have
    lw: "\<forall>x \<in> set (b2w_table st). dt \<le> x" and
    lb: "\<forall>x \<in> set (concat (b2b_table st)). dt \<le> x" and
    mem: "dt \<in> set (b2w_table st) \<or> dt \<in> set (concat (b2b_table st))"
    by simp_all
  from mem tabs(3) nn have dt0: "Fin 0 \<le> dt" by blast
  from nc have "b2w_table st \<noteq> []"
    by (auto simp: next_collision_def np_argmin_def split: list.splits)
  with len have npos: "0 < n" by auto
  then have bne: "balls st \<noteq> []" by (auto simp: n_def num_balls_def)
  have "dt \<noteq> PInf"
  proof
    assume inf: "dt = PInf"
    have aw: "\<forall>x \<in> set (b2w_table st). x = PInf"
      using lw unfolding inf by (metis fl.exhaust less_eq_fl.simps(5,7,8))
    have ab: "\<forall>x \<in> set (concat (b2b_table st)). x = PInf"
      using lb unfolding inf by (metis fl.exhaust less_eq_fl.simps(5,7,8))
    have "next_collision st = Inr ([0, 0], PInf)"
      using sq npos _ aw ab by (rule next_collision_all_PInf) (use len npos in auto)
    with nc have "ids = [0, 0]" by simp
    with c inf collide_stalled [OF bne] show False by simp
  qed
  with dt0 obtain d where dt: "dt = Fin d" and d0: "0 \<le> d"
    by (cases dt) auto
  have len': "length (b2w_table st) = num_balls st" using len by (simp add: n_def)
  from collide_effect [OF c len'] have
    r': "container_radius st' = R" and n': "num_balls st' = n"
    and lw': "length (b2w_table st') = n"
    and idn: "\<And>k. k \<in> set ids \<Longrightarrow> k < n"
    and other: "\<And>k. k < n \<Longrightarrow> k \<notin> set ids \<Longrightarrow>
            velocity (balls st' ! k) = velocity (balls st ! k) \<and>
            b2w_table st' ! k = b2w_table st ! k - dt"
    and part: "\<And>k. k \<in> set ids \<Longrightarrow>
            next_wall_collision (balls st' ! k) R = Inr (b2w_table st' ! k)"
    and sq': "square_table n (b2b_table st')"
    and nn': "\<forall>x \<in> set (concat (b2b_table st')). Fin 0 \<le> x"
    using sq dt nn lb len by (auto simp: R_def n_def)
  have geo: "position (balls st' ! k) = position (update_position (Fin d) (balls st ! k))"
    "radius (balls st' ! k) = radius (balls st ! k)" if "k < n" for k
    using collide_geometry [OF c, of k] that by (simp_all add: dt n_def num_balls_def)
  have ball: "finite_ball (balls st' ! k) \<and> wall_horizon R (balls st' ! k) (b2w_table st' ! k)"
    if k: "k < n" for k
  proof -
    let ?b = "balls st ! k" and ?b' = "balls st' ! k"
    let ?e = "b2w_table st ! k"
    from fb [OF k] have fp: "finite_vec (position ?b)" and fv: "finite_vec (velocity ?b)"
      and fr: "is_fin (radius ?b)"
      by (simp_all add: finite_ball_def)
    have fp': "finite_vec (position ?b')"
      unfolding geo(1) [OF k] using fp fv by (rule update_position_finite)
    have fr': "is_fin (radius ?b')" using fr by (simp add: geo(2) [OF k])
    have "?e \<in> set (b2w_table st)" using k len by simp
    with lw have de: "Fin d \<le> ?e" unfolding dt by blast
    have now: "contained R (update_position (Fin d) ?b)"
      using hz [OF k]
    proof (cases rule: wall_horizon_cases)
      case (finite h)
      with de have "d \<le> h" by simp
      with finite(3) d0 show ?thesis by (simp add: stays_inside_def)
    next
      case rest
      have "contained R (update_position (Fin d) ?b) = contained R ?b"
        by (intro contained_cong)
           (simp_all add: update_position_at_rest [OF fp rest(2)] update_position_radius)
      with rest(3) show ?thesis by simp
    qed
    have c': "contained R ?b'"
      using now contained_cong [of ?b' "update_position (Fin d) ?b" R] geo [OF k]
      by (simp add: update_position_radius)
    show ?thesis
    proof (cases "k \<in> set ids")
      case False
      from other [OF k False] have v': "velocity ?b' = velocity ?b"
        and e': "b2w_table st' ! k = ?e - dt"
        by simp_all
      have fin': "finite_ball ?b'" using fp' fr' fv by (simp add: finite_ball_def v')
      have "wall_horizon R ?b' (b2w_table st' ! k)"
        using hz [OF k]
      proof (cases rule: wall_horizon_cases)
        case (finite h)
        with de have dh: "d \<le> h" by simp
        have "stays_inside R ?b' (h - d)"
          using fp fv finite(3) d0 dh geo(1) [OF k] v' geo(2) [OF k]
          by (rule stays_inside_shift)
        with dh show ?thesis
          by (simp add: e' finite(1) dt minus_fl_def wall_horizon_def)
      next
        case rest
        with c' show ?thesis
          by (simp add: e' dt minus_fl_def wall_horizon_def v')
      qed
      with fin' show ?thesis by simp
    next
      case True
      from part [OF True] have nw: "next_wall_collision ?b' R = Inr (b2w_table st' ! k)" .
      have fv': "finite_vec (velocity ?b')"
        using nw fp' by (rule next_wall_collision_finite_velocity)
      have fin': "finite_ball ?b'" using fp' fr' fv' by (simp add: finite_ball_def)
      have "wall_horizon R ?b' (b2w_table st' ! k)"
        using next_wall_collision_result [OF nw]
      proof
        assume inf: "b2w_table st' ! k = PInf"
        with nd [OF True] have "velocity ?b' = (Fin 0, Fin 0)"
          by (simp add: floor_discarded_def)
        with c' inf show ?thesis by (simp add: wall_horizon_def)
      next
        assume "\<exists>t. b2w_table st' ! k = Fin t \<and> time_floor < t"
        then obtain t where t: "b2w_table st' ! k = Fin t" "time_floor < t" by blast
        from t(2) have "0 \<le> t" by (simp add: time_floor_def)
        moreover have "stays_inside R ?b' t"
          using fp' fv' fr' fR c' nw [unfolded t(1)] by (rule predicted_time_stays_inside)
        ultimately show ?thesis by (simp add: t(1) wall_horizon_def)
      qed
      with fin' show ?thesis by simp
    qed
  qed
  show ?thesis
    unfolding engine_invariant_def r' n'
    using fR lw' sq' nn' ball by blast
qed

subsubsection \<open>The invariant holds after \<open>init_table\<close>\<close>

lemma init_table_row_nonneg:
  "\<forall>x \<in> set (concat T). Fin 0 \<le> x \<Longrightarrow> init_table_row bs i js T = Inr T' \<Longrightarrow>
   \<forall>x \<in> set (concat T'). Fin 0 \<le> x"
proof (induction js arbitrary: T)
  case Nil
  then show ?case by simp
next
  case (Cons j js)
  from Cons.prems(2) obtain t where
    t: "next_ball_collision (bs ! i) (bs ! j) = Inr t" and
    rest: "init_table_row bs i js (set_b2b i j t T) = Inr T'"
    by (auto split: sum.splits)
  from t have "Fin 0 \<le> t"
    by (auto simp: next_ball_collision_def Let_def intro: predict_collision_time_nonneg)
  then have "\<forall>x \<in> set (concat (set_b2b i j t T)). Fin 0 \<le> x"
    using Cons.prems(1) set_concat_set_b2b [of i j t T] by auto
  then show ?case using rest by (rule Cons.IH)
qed

lemma init_table_loop_effect:
  assumes "init_table_loop is st = Inr st'"
    and "length (b2w_table st) = num_balls st"
    and "\<forall>i \<in> set is. i < num_balls st"
    and "\<forall>x \<in> set (concat (b2b_table st)). Fin 0 \<le> x"
  shows "balls st' = balls st \<and> container_radius st' = container_radius st \<and>
         length (b2w_table st') = length (b2w_table st) \<and>
         (\<forall>k. k \<notin> set is \<longrightarrow> b2w_table st' ! k = b2w_table st ! k) \<and>
         (\<forall>k. k \<in> set is \<longrightarrow>
           next_wall_collision (balls st ! k) (container_radius st) = Inr (b2w_table st' ! k)) \<and>
         (\<forall>x \<in> set (concat (b2b_table st')). Fin 0 \<le> x)"
  using assms
proof (induction "is" arbitrary: st)
  case Nil
  then show ?case by simp
next
  case (Cons i "is")
  from Cons.prems(1) obtain t T where
    t: "next_wall_collision (balls st ! i) (container_radius st) = Inr t"
    and row: "init_table_row (balls st) i [i + 1 ..< num_balls st] (b2b_table st) = Inr T"
    and rest: "init_table_loop is
         (st\<lparr>b2w_table := (b2w_table st)[i := t], b2b_table := T\<rparr>) = Inr st'"
    by (auto split: sum.splits)
  let ?st1 = "st\<lparr>b2w_table := (b2w_table st)[i := t], b2b_table := T\<rparr>"
  from Cons.prems(3) have i: "i < num_balls st" by simp
  have len1: "length (b2w_table ?st1) = num_balls ?st1"
    using Cons.prems(2) by (simp add: num_balls_def)
  have in1: "\<forall>i \<in> set is. i < num_balls ?st1"
    using Cons.prems(3) by (simp add: num_balls_def)
  have "\<forall>x \<in> set (concat T). Fin 0 \<le> x"
    using Cons.prems(4) row by (rule init_table_row_nonneg)
  then have nn1: "\<forall>x \<in> set (concat (b2b_table ?st1)). Fin 0 \<le> x" by simp
  from Cons.IH [OF rest len1 in1 nn1] have
    ih0: "balls st' = balls st" and
    ih1: "container_radius st' = container_radius st" and
    ih2: "length (b2w_table st') = length (b2w_table st)" and
    ih3: "\<And>k. k \<notin> set is \<Longrightarrow> b2w_table st' ! k = (b2w_table st)[i := t] ! k" and
    ih4: "\<And>k. k \<in> set is \<Longrightarrow>
           next_wall_collision (balls st ! k) (container_radius st) = Inr (b2w_table st' ! k)" and
    ih5: "\<forall>x \<in> set (concat (b2b_table st')). Fin 0 \<le> x"
    by simp_all
  have a: "b2w_table st' ! k = b2w_table st ! k" if "k \<notin> set (i # is)" for k
    using ih3 [of k] that by simp
  have b: "next_wall_collision (balls st ! k) (container_radius st) = Inr (b2w_table st' ! k)"
    if "k \<in> set (i # is)" for k
  proof (cases "k \<in> set is")
    case True
    then show ?thesis by (rule ih4)
  next
    case False
    with that have ki: "k = i" by simp
    have "b2w_table st' ! i = t"
      using ih3 [of i] False ki i Cons.prems(2) by simp
    with t ki show ?thesis by simp
  qed
  show ?case using ih0 ih1 ih2 a b ih5 by blast
qed

lemma np_full2_nonneg: "\<forall>x \<in> set (concat (np_full2 n)). Fin 0 \<le> x"
  by (auto simp: np_full2_def)

lemma wall_horizon_predicted:
  assumes fb: "finite_ball b" and fR: "is_fin R" and inside: "contained R b"
    and nw: "next_wall_collision b R = Inr e"
    and nd: "e = PInf \<Longrightarrow> velocity b = (Fin 0, Fin 0)"
  shows "wall_horizon R b e"
  using next_wall_collision_result [OF nw]
proof
  assume inf: "e = PInf"
  with nd inside show ?thesis by (simp add: wall_horizon_def)
next
  assume "\<exists>t. e = Fin t \<and> time_floor < t"
  then obtain t where t: "e = Fin t" "time_floor < t" by blast
  from t(2) have "0 \<le> t" by (simp add: time_floor_def)
  moreover have "stays_inside R b t"
    using fb fR inside nw [unfolded t(1)]
    by (intro predicted_time_stays_inside) (simp_all add: finite_ball_def)
  ultimately show ?thesis by (simp add: t(1) wall_horizon_def)
qed

lemma engine_invariant_init:
  assumes fR: "is_fin R"
    and bs: "list_all (\<lambda>b. finite_ball b \<and> contained R b) bs"
    and init: "init_table (new_app R bs) = Inr st0"
    and nd: "list_all (\<lambda>k. \<not> floor_discarded st0 k) [0 ..< length bs]"
  shows "engine_invariant st0"
proof -
  let ?st = "new_app R bs"
  define n where "n = length bs"
  have nb: "num_balls ?st = n" "balls ?st = bs" "container_radius ?st = R"
    "length (b2w_table ?st) = n" "b2b_table ?st = np_full2 n"
    by (simp_all add: new_app_def num_balls_def np_full1_def n_def)
  from init have loop: "init_table_loop [0 ..< n] ?st = Inr st0"
    by (simp add: init_table_def nb)
  have "b2b_invariant n (b2b_table ?st)" by (simp add: nb np_full2_invariant)
  then have "b2b_invariant n (b2b_table st0)" using loop by (rule init_table_loop_invariant)
  then have sq: "square_table n (b2b_table st0)" by (simp add: b2b_invariant_def)
  have e: "balls st0 = bs \<and> container_radius st0 = R \<and> length (b2w_table st0) = n \<and>
         (\<forall>k. k \<in> set [0 ..< n] \<longrightarrow>
           next_wall_collision (bs ! k) R = Inr (b2w_table st0 ! k)) \<and>
         (\<forall>x \<in> set (concat (b2b_table st0)). Fin 0 \<le> x)"
    using init_table_loop_effect [OF loop] nb np_full2_nonneg [of n] by simp
  then have b0: "balls st0 = bs" and r0: "container_radius st0 = R"
    and l0: "length (b2w_table st0) = n"
    and w0: "\<And>k. k < n \<Longrightarrow> next_wall_collision (bs ! k) R = Inr (b2w_table st0 ! k)"
    and nn0: "\<forall>x \<in> set (concat (b2b_table st0)). Fin 0 \<le> x"
    by simp_all
  have n0: "num_balls st0 = n" by (simp add: num_balls_def b0 n_def)
  have ball: "finite_ball (balls st0 ! k) \<and> wall_horizon R (balls st0 ! k) (b2w_table st0 ! k)"
    if k: "k < n" for k
  proof -
    from k bs have fb: "finite_ball (bs ! k)" and c: "contained R (bs ! k)"
      by (simp_all add: list_all_length n_def)
    from nd k have "\<not> floor_discarded st0 k" by (simp add: list_all_iff n_def)
    then have "b2w_table st0 ! k = PInf \<Longrightarrow> velocity (bs ! k) = (Fin 0, Fin 0)"
      by (simp add: floor_discarded_def b0)
    with fb fR c w0 [OF k] have "wall_horizon R (bs ! k) (b2w_table st0 ! k)"
      by (rule wall_horizon_predicted)
    with fb show ?thesis by (simp add: b0)
  qed
  show ?thesis
    unfolding engine_invariant_def r0 n0
    using fR l0 sq nn0 ball by blast
qed

lemma engine_invariant_update_state:
  assumes "engine_invariant st" and "update_state dt st = Inr st'"
  shows "engine_invariant st'"
proof -
  from update_state_effect [OF assms(2)] have
    "balls st' = balls st" "b2w_table st' = b2w_table st" "b2b_table st' = b2b_table st"
    "container_radius st' = container_radius st"
    by simp_all
  with assms(1) show ?thesis by (simp add: engine_invariant_def num_balls_def)
qed

lemma update_position_zero:
  assumes "finite_vec (position b)" and "finite_vec (velocity b)"
  shows "position (update_position (Fin 0) b) = position b"
proof -
  obtain x y where p: "position b = (Fin x, Fin y)" using assms(1) by (rule finite_vecE)
  obtain vx vy where v: "velocity b = (Fin vx, Fin vy)" using assms(2) by (rule finite_vecE)
  show ?thesis by (simp add: update_position_def Let_def p v)
qed

lemma wall_horizon_contained:
  assumes "finite_ball b" and "wall_horizon R b e"
  shows "contained R b"
  using assms(2)
proof (cases rule: wall_horizon_cases)
  case (finite h)
  then have "contained R (update_position (Fin 0) b)" by (simp add: stays_inside_def)
  moreover have "contained R (update_position (Fin 0) b) = contained R b"
    using assms(1)
    by (intro contained_cong) (simp_all add: update_position_zero update_position_radius
        finite_ball_def)
  ultimately show ?thesis by simp
next
  case rest
  then show ?thesis by simp
qed

lemma engine_invariant_contained:
  assumes "engine_invariant st"
  shows "list_all (contained (container_radius st)) (balls st)"
  using assms wall_horizon_contained
  by (auto simp: engine_invariant_def list_all_length num_balls_def)

lemma engine_invariant_steps:
  assumes "event_step\<^sup>*\<^sup>* st st'" and "engine_invariant st"
  shows "engine_invariant st' \<and> container_radius st' = container_radius st \<and>
         num_balls st' = num_balls st"
  using assms
proof (induction rule: rtranclp_induct)
  case base
  then show ?case by simp
next
  case (step y z)
  then have inv: "engine_invariant y" by simp
  from step.hyps(2) obtain ids dt where c: "collide (ids, dt) y = Inr z"
    by (auto simp: event_step_def split: sum.splits)
  from inv have "length (b2w_table y) = num_balls y" by (simp add: engine_invariant_def)
  with c have "container_radius z = container_radius y \<and> num_balls z = num_balls y"
    using collide_effect by blast
  with step inv engine_invariant_step [OF inv step.hyps(2)] show ?case by simp
qed

lemma render_event_step: "event_step st st1 \<Longrightarrow> render (Suc n) st = render n st1"
  by (auto simp: event_step_def split: sum.splits)

subsubsection \<open>The head-on run\<close>

lemma head_on_update_state: "update_state (Fin 0) head_on_app_1 = Inr head_on_app_0"
  by (simp add: update_state_def head_on_app_0_def head_on_app_1_def head_on_app_def
      new_app_def num_balls_def Let_def head_on_ball_1_def head_on_ball_2_def
      kinetic_energy_def speed_squared_def)

lemma head_on_next_collision_0: "next_collision head_on_app_0 = Inr ([0, 1], Fin 2)"
  by (simp add: next_collision_def head_on_app_0_def head_on_app_def head_on_app_1_def
      new_app_def np_argmin_def Let_def)

lemma head_on_collide_0: "collide ([0, 1], Fin 2) head_on_app_0 = Inr head_on_app_2"
  by (simp add: collide_def ball_collision_def update_table_def update_state_def
      update_position_def update_velocity_def velocity_after_ball_collision_def
      head_on_app_0_def head_on_app_def head_on_app_1_def head_on_app_2_def new_app_def
      num_balls_def
      head_on_ball_1_def head_on_ball_2_def next_wall_collision_def next_ball_collision_def
      kinetic_energy_def speed_squared_def la_norm_def
      minus_fl_def head_on_wall_time_2 head_on_ball_time_2 set_b2b_def Let_def
      upt_rec numeral_2_eq_2)

lemma head_on_event_step: "event_step head_on_app_0 head_on_app_2"
proof -
  have "list_all (\<lambda>k. \<not> floor_discarded head_on_app_2 k) [0, 1]"
    by (simp add: floor_discarded_def head_on_app_2_def)
  with head_on_collide_0 show ?thesis
    unfolding event_step_def head_on_next_collision_0 by simp
qed

subsubsection \<open>Containment over a run\<close>

text \<open>
  From an initial population of contained balls with finite data, containment holds after
  any number of events of the loop of \<open>render\<close>, as long as no event leaves a ball whose
  times it recomputes with a discarded wall root.
\<close>

lemma containment_invariant:
  assumes "is_fin R"
    and "list_all (\<lambda>b. finite_ball b \<and> contained R b) bs"
    and "init_table (new_app R bs) = Inr st0"
    and "list_all (\<lambda>k. \<not> floor_discarded st0 k) [0 ..< length bs]"
    and "update_state (Fin 0) st0 = Inr st1"
    and "event_step\<^sup>*\<^sup>* st1 st'"
  shows "container_radius st' = R \<and> length (balls st') = length bs \<and>
         list_all (contained R) (balls st')"
proof -
  have inv0: "engine_invariant st0"
    using assms(1-4) by (rule engine_invariant_init)
  then have inv1: "engine_invariant st1"
    using assms(5) by (rule engine_invariant_update_state)
  have e0: "balls st0 = bs \<and> container_radius st0 = R"
    using init_table_loop_effect [of "[0 ..< length bs]" "new_app R bs" st0] assms(3)
      np_full2_nonneg [of "length bs"]
    by (simp add: init_table_def new_app_def num_balls_def np_full1_def)
  from update_state_effect [OF assms(5)] e0 have e1:
    "balls st1 = bs" "container_radius st1 = R"
    by simp_all
  from engine_invariant_steps [OF assms(6) inv1] have inv: "engine_invariant st'"
    and r: "container_radius st' = R" and n: "length (balls st') = length bs"
    by (simp_all add: e1 num_balls_def)
  from engine_invariant_contained [OF inv] r n show ?thesis by simp
qed

lemma containment_invariant_example:
  "is_fin (Fin 10) \<and>
   list_all (\<lambda>b. finite_ball b \<and> contained (Fin 10) b) [head_on_ball_1, head_on_ball_2] \<and>
   init_table (new_app (Fin 10) [head_on_ball_1, head_on_ball_2]) = Inr head_on_app_1 \<and>
   list_all (\<lambda>k. \<not> floor_discarded head_on_app_1 k)
     [0 ..< length [head_on_ball_1, head_on_ball_2]] \<and>
   update_state (Fin 0) head_on_app_1 = Inr head_on_app_0 \<and>
   next_collision head_on_app_0 = Inr ([0, 1], Fin 2) \<and>
   collide ([0, 1], Fin 2) head_on_app_0 = Inr head_on_app_2 \<and>
   event_step\<^sup>*\<^sup>* head_on_app_0 head_on_app_2 \<and>
   container_radius head_on_app_2 = Fin 10 \<and>
   length (balls head_on_app_2) = length [head_on_ball_1, head_on_ball_2] \<and>
   list_all (contained (Fin 10)) (balls head_on_app_2)"
proof -
  have a: "is_fin (Fin 10)" by simp
  have b: "list_all (\<lambda>b. finite_ball b \<and> contained (Fin 10) b)
      [head_on_ball_1, head_on_ball_2]"
    by (simp add: finite_ball_def finite_vec_def contained_def la_norm_def sqrt_9
        head_on_ball_1_def head_on_ball_2_def)
  have c: "init_table (new_app (Fin 10) [head_on_ball_1, head_on_ball_2]) = Inr head_on_app_1"
    using head_on_init_table by (simp add: head_on_app_def)
  have d: "list_all (\<lambda>k. \<not> floor_discarded head_on_app_1 k)
      [0 ..< length [head_on_ball_1, head_on_ball_2]]"
    by (simp add: floor_discarded_def head_on_app_1_def upt_rec numeral_2_eq_2)
  have e: "event_step\<^sup>*\<^sup>* head_on_app_0 head_on_app_2"
    using head_on_event_step by (rule r_into_rtranclp)
  from containment_invariant [OF a b c d head_on_update_state e]
  show ?thesis
    using a b c d e head_on_update_state head_on_next_collision_0 head_on_collide_0 by blast
qed

end
